theory Spec2Isabelle
  imports Complex_Main
begin

section \<open>Tensors\<close>

text \<open>
  \<^verbatim>\<open>scale_kernel.py\<close> computes with torch tensors. A tensor is its shape together with
  its entries in row-major order; the entries are real numbers (rounding is not part of
  the model). A 0-dimensional tensor has shape \<open>[]\<close> and one entry.
\<close>

datatype error =
    InvalidScaleError
  | ShapeMismatchError
  | IndexError
  | TypeError
  | BaseKernelError string

record tensor =
  shape :: "nat list"
  data :: "real list"

definition wf_tensor :: "tensor \<Rightarrow> bool" where
  "wf_tensor t \<longleftrightarrow> length (data t) = prod_list (shape t)"

definition dim :: "tensor \<Rightarrow> nat" where
  "dim t = length (shape t)"

definition numel :: "tensor \<Rightarrow> nat" where
  "numel t = prod_list (shape t)"

text \<open>\<^verbatim>\<open>torch.zeros(*sizes)\<close> and \<^verbatim>\<open>torch.tensor(v)\<close> for a Python float \<open>v\<close>.\<close>

definition zeros :: "nat list \<Rightarrow> tensor" where
  "zeros sizes = \<lparr>shape = sizes, data = replicate (prod_list sizes) 0\<rparr>"

definition scalar_tensor :: "real \<Rightarrow> tensor" where
  "scalar_tensor v = \<lparr>shape = [], data = [v]\<rparr>"

text \<open>
  \<^verbatim>\<open>t.size(-1)\<close>: the size of the last axis; torch raises IndexError on a
  0-dimensional tensor.
\<close>

definition size_last :: "tensor \<Rightarrow> error + nat" where
  "size_last t = (if shape t = [] then Inl IndexError else Inr (last (shape t)))"

text \<open>\<^verbatim>\<open>t.unsqueeze(0)\<close>: a new leading axis of size 1, the entries untouched.\<close>

definition unsqueeze0 :: "tensor \<Rightarrow> tensor" where
  "unsqueeze0 t = \<lparr>shape = 1 # shape t, data = data t\<rparr>"

text \<open>\<open>chunks n k xs\<close> cuts \<open>xs\<close> into \<open>k\<close> consecutive blocks of \<open>n\<close> entries.\<close>

fun chunks :: "nat \<Rightarrow> nat \<Rightarrow> 'a list \<Rightarrow> 'a list list" where
  "chunks n 0 xs = []"
| "chunks n (Suc k) xs = take n xs # chunks n k (drop n xs)"

text \<open>
  \<^verbatim>\<open>t.repeat(*sizes)\<close> tiles the tensor \<open>sizes[i]\<close> times along axis \<open>i\<close>. torch wants
  at least as many sizes as the tensor has axes and pads the shape with leading 1s.
\<close>

fun repeat_data :: "nat list \<Rightarrow> nat list \<Rightarrow> real list \<Rightarrow> real list" where
  "repeat_data (r # rs) (s # ss) xs =
     concat (replicate r (concat (map (repeat_data rs ss) (chunks (prod_list ss) s xs))))"
| "repeat_data rs ss xs = xs"

definition pad_left :: "nat \<Rightarrow> nat list \<Rightarrow> nat list" where
  "pad_left n s = replicate (n - length s) 1 @ s"

definition repeat :: "tensor \<Rightarrow> nat list \<Rightarrow> error + tensor" where
  "repeat t sizes =
     (if length sizes < dim t then Inl ShapeMismatchError
      else let s = pad_left (length sizes) (shape t)
           in Inr \<lparr>shape = map2 (*) sizes s, data = repeat_data sizes s (data t)\<rparr>)"

text \<open>
  \<^verbatim>\<open>t.view(*sizes)\<close>: the same entries under a new shape of the same number of entries.
  torch rejects a call without any size, as it does for \<^verbatim>\<open>torch.zeros()\<close> (which line 59
  of the source avoids).
\<close>

definition view :: "tensor \<Rightarrow> nat list \<Rightarrow> error + tensor" where
  "view t sizes =
     (if sizes = [] then Inl TypeError
      else if prod_list sizes = numel t then Inr \<lparr>shape = sizes, data = data t\<rparr>
      else Inl ShapeMismatchError)"

text \<open>
  Broadcasting: shapes are aligned at the last axis, the shorter one padded with leading
  1s; two sizes are compatible when they are equal or one of them is 1.
\<close>

fun broadcast_dims :: "nat list \<Rightarrow> nat list \<Rightarrow> error + nat list" where
  "broadcast_dims [] [] = Inr []"
| "broadcast_dims (a # as) (b # bs) =
     (case broadcast_dims as bs of
        Inl e \<Rightarrow> Inl e
      | Inr rs \<Rightarrow>
          if a = b then Inr (a # rs)
          else if a = 1 then Inr (b # rs)
          else if b = 1 then Inr (a # rs)
          else Inl ShapeMismatchError)"
| "broadcast_dims as bs = Inl ShapeMismatchError"

definition broadcast_shapes :: "nat list \<Rightarrow> nat list \<Rightarrow> error + nat list" where
  "broadcast_shapes a b =
     (let n = max (length a) (length b) in broadcast_dims (pad_left n a) (pad_left n b))"

text \<open>
  \<open>expand_data s t xs\<close>: the entries of a tensor of shape \<open>s\<close> expanded to shape \<open>t\<close>
  (same rank, every axis of \<open>s\<close> equal to that of \<open>t\<close> or of size 1).
\<close>

fun expand_data :: "nat list \<Rightarrow> nat list \<Rightarrow> real list \<Rightarrow> real list" where
  "expand_data (s # ss) (t # ts) xs =
     (if s = t then concat (map (expand_data ss ts) (chunks (prod_list ss) s xs))
      else concat (replicate t (expand_data ss ts xs)))"
| "expand_data ss ts xs = xs"

text \<open>\<^verbatim>\<open>a * b\<close> and \<^verbatim>\<open>a.mul(b)\<close> on dense tensors: the entrywise product after broadcasting.\<close>

definition mul :: "tensor \<Rightarrow> tensor \<Rightarrow> error + tensor" where
  "mul a b =
     (case broadcast_shapes (shape a) (shape b) of
        Inl e \<Rightarrow> Inl e
      | Inr rs \<Rightarrow>
          Inr \<lparr>shape = rs,
               data = map2 (*) (expand_data (pad_left (length rs) (shape a)) rs (data a))
                               (expand_data (pad_left (length rs) (shape b)) rs (data b))\<rparr>)"

text \<open>\<^verbatim>\<open>val.expand_as(param)\<close>: broadcast \<open>val\<close> to exactly the shape of \<open>param\<close>.\<close>

definition expand :: "tensor \<Rightarrow> nat list \<Rightarrow> error + tensor" where
  "expand t sizes =
     (if length sizes < dim t then Inl ShapeMismatchError
      else if broadcast_dims (pad_left (length sizes) (shape t)) sizes = Inr sizes
      then Inr \<lparr>shape = sizes, data = expand_data (pad_left (length sizes) (shape t)) sizes (data t)\<rparr>
      else Inl ShapeMismatchError)"


section \<open>Entries of a tensor by index\<close>

text \<open>
  To speak about single entries: \<open>valid_index ns is\<close> says that \<open>is\<close> is an index into a
  tensor of shape \<open>ns\<close>, \<open>flat_index\<close> is its place in row-major order, and \<open>entry t is\<close>
  is the entry of \<open>t\<close> there. Under broadcasting, the entry of the result at an index comes
  from the entries of the operands at \<open>broadcast_index\<close>: the index is aligned at the last
  axis and is 0 along every axis of size 1. \<open>expands_to s t\<close> says that a tensor of shape
  \<open>s\<close> broadcasts to the shape \<open>t\<close> of the same rank.
\<close>

fun flat_index :: "nat list \<Rightarrow> nat list \<Rightarrow> nat" where
  "flat_index (n # ns) (i # is) = i * prod_list ns + flat_index ns is"
| "flat_index ns is = 0"

definition valid_index :: "nat list \<Rightarrow> nat list \<Rightarrow> bool" where
  "valid_index ns is \<longleftrightarrow> list_all2 (<) is ns"

definition entry :: "tensor \<Rightarrow> nat list \<Rightarrow> real" where
  "entry t is = data t ! flat_index (shape t) is"

fun clamp_index :: "nat list \<Rightarrow> nat list \<Rightarrow> nat list" where
  "clamp_index (n # ns) (i # is) = (if n = 1 then 0 else i) # clamp_index ns is"
| "clamp_index ns is = []"

definition broadcast_index :: "nat list \<Rightarrow> nat list \<Rightarrow> nat list" where
  "broadcast_index ns is = clamp_index ns (drop (length is - length ns) is)"

definition expands_to :: "nat list \<Rightarrow> nat list \<Rightarrow> bool" where
  "expands_to s t \<longleftrightarrow> list_all2 (\<lambda>a b. a = b \<or> a = 1) s t"


section \<open>Collaborators of the scale kernel\<close>

subsection \<open>The constraint on the raw parameter\<close>

text \<open>
  Modelled from the spec: \<^verbatim>\<open>gpytorch.constraints\<close> (the class \<^verbatim>\<open>Positive\<close>, with
  \<^verbatim>\<open>transform\<close> and \<^verbatim>\<open>inverse_transform\<close>) is not among the sources. The spec describes a
  constraint as a pair of elementwise maps: \<^verbatim>\<open>transform\<close>, defined for every real input,
  strictly increasing and bijective onto the positive reals ("conventionally softplus or
  exponential"), and \<^verbatim>\<open>inverseTransform\<close>, its elementwise inverse, defined for values above
  the lower bound 0 and failing with InvalidScaleError for a value outside that domain.
  A constraint object carries the two scalar maps; \<open>Positive\<close> is the softplus pair.
\<close>

record constraint =
  c_transform :: "real \<Rightarrow> real"
  c_inv_transform :: "real \<Rightarrow> real"

definition softplus :: "real \<Rightarrow> real" where
  "softplus x = ln (1 + exp x)"

definition inv_softplus :: "real \<Rightarrow> real" where
  "inv_softplus y = ln (exp y - 1)"

definition Positive :: constraint where
  "Positive = \<lparr>c_transform = softplus, c_inv_transform = inv_softplus\<rparr>"

definition transform :: "constraint \<Rightarrow> tensor \<Rightarrow> tensor" where
  "transform c t = \<lparr>shape = shape t, data = map (c_transform c) (data t)\<rparr>"

definition inverse_transform :: "constraint \<Rightarrow> tensor \<Rightarrow> error + tensor" where
  "inverse_transform c t =
     (if list_all (\<lambda>v. 0 < v) (data t)
      then Inr \<lparr>shape = shape t, data = map (c_inv_transform c) (data t)\<rparr>
      else Inl InvalidScaleError)"

text \<open>
  The contract the spec puts on every constraint handed to the constructor: strictly
  increasing, onto the positive reals, and inverted by the inverse map on the positive
  reals.
\<close>

definition positivity_constraint :: "constraint \<Rightarrow> bool" where
  "positivity_constraint c \<longleftrightarrow>
     strict_mono (c_transform c) \<and>
     range (c_transform c) = {0<..} \<and>
     (\<forall>v. 0 < v \<longrightarrow> c_transform c (c_inv_transform c v) = v)"

subsection \<open>Covariance results: dense or lazy\<close>

text \<open>
  Modelled from the spec: \<^verbatim>\<open>gpytorch.lazy\<close> (\<^verbatim>\<open>delazify\<close> and the lazy tensors with their
  \<^verbatim>\<open>mul\<close>) is not among the sources. By the spec a covariance result is either a dense
  tensor or a lazy representation of one; \<^verbatim>\<open>delazify\<close> materializes a lazy result and leaves
  a dense one as it is, and the representation's own \<^verbatim>\<open>mul\<close> keeps the representation. A
  lazy result is represented by the tensor it evaluates to, tagged \<open>Lazy\<close>.
\<close>

datatype covar = Dense tensor | Lazy tensor

fun delazify :: "covar \<Rightarrow> tensor" where
  "delazify (Dense t) = t"
| "delazify (Lazy t) = t"

fun is_lazy :: "covar \<Rightarrow> bool" where
  "is_lazy (Dense t) = False"
| "is_lazy (Lazy t) = True"

definition covar_dim :: "covar \<Rightarrow> nat" where
  "covar_dim r = dim (delazify r)"

fun covar_mul :: "covar \<Rightarrow> tensor \<Rightarrow> error + covar" where
  "covar_mul (Dense t) s = (case mul t s of Inl e \<Rightarrow> Inl e | Inr r \<Rightarrow> Inr (Dense r))"
| "covar_mul (Lazy t) s = (case mul t s of Inl e \<Rightarrow> Inl e | Inr r \<Rightarrow> Inr (Lazy r))"

subsection \<open>The base kernel\<close>

text \<open>
  The decorated kernel is any object with a \<^verbatim>\<open>forward\<close> and a \<^verbatim>\<open>size\<close> method. It has a
  state of its own (of any type \<open>'b\<close>), which its \<^verbatim>\<open>forward\<close> may change; \<^verbatim>\<open>batch_dims\<close> is
  \<^verbatim>\<open>None\<close> or a pair of axes, and \<^verbatim>\<open>**params\<close> is a list of named tensors.
\<close>

type_synonym batch_dims = "(int \<times> int) option"

type_synonym params = "(string \<times> tensor) list"

record 'b Kernel =
  kernel_state :: 'b
  kernel_forward ::
    "'b \<Rightarrow> tensor \<Rightarrow> tensor \<Rightarrow> bool \<Rightarrow> batch_dims \<Rightarrow> params \<Rightarrow> (error + covar) \<times> 'b"
  kernel_size :: "'b \<Rightarrow> tensor \<Rightarrow> tensor \<Rightarrow> error + nat list"

definition Kernel_forward ::
  "'b Kernel \<Rightarrow> tensor \<Rightarrow> tensor \<Rightarrow> bool \<Rightarrow> batch_dims \<Rightarrow> params \<Rightarrow> (error + covar) \<times> 'b Kernel"
  where
  "Kernel_forward k x1 x2 diag batch_dims params =
     (case kernel_forward k (kernel_state k) x1 x2 diag batch_dims params of
        (r, st) \<Rightarrow> (r, k\<lparr>kernel_state := st\<rparr>))"

definition Kernel_size :: "'b Kernel \<Rightarrow> tensor \<Rightarrow> tensor \<Rightarrow> error + nat list" where
  "Kernel_size k x1 x2 = kernel_size k (kernel_state k) x1 x2"

section \<open>ScaleKernel\<close>

text \<open>
  The fields of a \<^verbatim>\<open>ScaleKernel\<close>: \<^verbatim>\<open>batch_shape\<close> (set by the constructor of the base
  class \<^verbatim>\<open>Kernel\<close> from the keyword arguments), \<^verbatim>\<open>base_kernel\<close>, the parameter
  \<^verbatim>\<open>raw_outputscale\<close>, the registered prior, if any, and the registered constraint
  \<^verbatim>\<open>raw_outputscale_constraint\<close>.
\<close>

typedecl prior

record 'b ScaleKernel =
  batch_shape :: "nat list"
  base_kernel :: "'b Kernel"
  raw_outputscale :: tensor
  outputscale_prior :: "prior option"
  raw_outputscale_constraint :: constraint

text \<open>
  \<^verbatim>\<open>__init__\<close> (lines 53 to 66). Modelled from the spec: the constructor of \<^verbatim>\<open>Kernel\<close>
  is not among the sources; by the spec it stores the keyword argument \<^verbatim>\<open>batch_shape\<close>,
  a sequence of non-negative integers, empty by default.
\<close>

definition ScaleKernel_init ::
  "'b Kernel \<Rightarrow> prior option \<Rightarrow> constraint option \<Rightarrow> nat list \<Rightarrow> 'b ScaleKernel" where
  "ScaleKernel_init base outputscale_prior' outputscale_constraint batch_shape' =
     (let outputscale_constraint' =
            (case outputscale_constraint of None \<Rightarrow> Positive | Some c \<Rightarrow> c);
          outputscale' =
            (if length batch_shape' \<noteq> 0 then zeros batch_shape' else scalar_tensor 0)
      in \<lparr>batch_shape = batch_shape',
          base_kernel = base,
          raw_outputscale = outputscale',
          outputscale_prior = outputscale_prior',
          raw_outputscale_constraint = outputscale_constraint'\<rparr>)"

text \<open>The property \<^verbatim>\<open>outputscale\<close> (lines 68 to 70).\<close>

definition outputscale :: "'b ScaleKernel \<Rightarrow> tensor" where
  "outputscale self = transform (raw_outputscale_constraint self) (raw_outputscale self)"

text \<open>
  A value handed to the setter is a Python number or a tensor;
  \<^verbatim>\<open>torch.as_tensor(value).to(self.raw_outputscale)\<close> makes a 0-dimensional tensor of a number.
\<close>

datatype pyvalue = Number real | Tensor tensor

fun as_tensor :: "pyvalue \<Rightarrow> tensor" where
  "as_tensor (Number v) = scalar_tensor v"
| "as_tensor (Tensor t) = t"

text \<open>
  Modelled from the spec: \<^verbatim>\<open>Module.initialize\<close> is not among the sources. By the spec the
  setter accepts a tensor broadcastable to the shape of the raw parameter and overwrites
  the parameter in place, and the shape of the parameter never changes.
\<close>

definition initialize :: "'b ScaleKernel \<Rightarrow> tensor \<Rightarrow> (error + unit) \<times> 'b ScaleKernel" where
  "initialize self val =
     (case expand val (shape (raw_outputscale self)) of
        Inl e \<Rightarrow> (Inl e, self)
      | Inr v \<Rightarrow> (Inr (), self\<lparr>raw_outputscale := v\<rparr>))"

text \<open>
  \<^verbatim>\<open>_set_outputscale\<close> (lines 76 to 79), which the setter of the property calls (lines 72
  to 74). The argument of \<^verbatim>\<open>initialize\<close> is computed before the call, so an error of
  \<^verbatim>\<open>inverse_transform\<close> leaves the object as it was.
\<close>

definition set_outputscale :: "'b ScaleKernel \<Rightarrow> pyvalue \<Rightarrow> (error + unit) \<times> 'b ScaleKernel" where
  "set_outputscale self value =
     (case inverse_transform (raw_outputscale_constraint self) (as_tensor value) of
        Inl e \<Rightarrow> (Inl e, self)
      | Inr raw \<Rightarrow> initialize self raw)"

text \<open>
  \<^verbatim>\<open>forward\<close>, lines 83 and 84: with \<^verbatim>\<open>batch_dims == (0, 2)\<close> the scales get a new leading
  axis and are repeated \<^verbatim>\<open>x1.size(-1)\<close> times along it.
\<close>

definition forward_outputscales :: "tensor \<Rightarrow> tensor \<Rightarrow> batch_dims \<Rightarrow> error + tensor" where
  "forward_outputscales outputscales x1 batch_dims =
     (if batch_dims = Some (0, 2)
      then (case size_last x1 of
              Inl e \<Rightarrow> Inl e
            | Inr d \<Rightarrow> repeat (unsqueeze0 outputscales) (d # replicate (dim outputscales) 1))
      else Inr outputscales)"

text \<open>
  \<^verbatim>\<open>forward\<close>, lines 87 to 91: the scales are viewed with one trailing axis of size 1 for
  every axis the base result has more (none when it has fewer: a negative repetition
  count gives the empty list), then multiplied in: into the delazified result when
  \<^verbatim>\<open>diag\<close> is set, with the result's own \<^verbatim>\<open>mul\<close> otherwise.
\<close>

definition scale_output :: "covar \<Rightarrow> tensor \<Rightarrow> bool \<Rightarrow> error + covar" where
  "scale_output orig_output outputscales diag =
     (case view outputscales
             (shape outputscales @ replicate (covar_dim orig_output - dim outputscales) 1) of
        Inl e \<Rightarrow> Inl e
      | Inr outputscales' \<Rightarrow>
          if diag
          then (case mul (delazify orig_output) outputscales' of
                  Inl e \<Rightarrow> Inl e
                | Inr r \<Rightarrow> Inr (Dense r))
          else covar_mul orig_output outputscales')"

text \<open>
  \<^verbatim>\<open>forward\<close> (lines 81 to 91). It returns its result, or the error raised, and the
  object after the call: nothing is assigned to a field of \<^verbatim>\<open>self\<close>, and the base kernel
  is the object its own \<^verbatim>\<open>forward\<close> left.
\<close>

definition forward ::
  "'b ScaleKernel \<Rightarrow> tensor \<Rightarrow> tensor \<Rightarrow> batch_dims \<Rightarrow> bool \<Rightarrow> params
     \<Rightarrow> (error + covar) \<times> 'b ScaleKernel" where
  "forward self x1 x2 batch_dims diag params =
     (case forward_outputscales (outputscale self) x1 batch_dims of
        Inl e \<Rightarrow> (Inl e, self)
      | Inr outputscales \<Rightarrow>
          (case Kernel_forward (base_kernel self) x1 x2 diag batch_dims params of
             (Inl e, base') \<Rightarrow> (Inl e, self\<lparr>base_kernel := base'\<rparr>)
           | (Inr orig_output, base') \<Rightarrow>
               (scale_output orig_output outputscales diag, self\<lparr>base_kernel := base'\<rparr>)))"

text \<open>\<^verbatim>\<open>size\<close> (lines 93 and 94).\<close>

definition size_kernel :: "'b ScaleKernel \<Rightarrow> tensor \<Rightarrow> tensor \<Rightarrow> error + nat list" where
  "size_kernel self x1 x2 = Kernel_size (base_kernel self) x1 x2"

section \<open>A base kernel for the examples\<close>

text \<open>
  A base kernel that returns one and the same covariance result for all inputs, as in the
  concrete scenarios of the specification.
\<close>

definition constant_kernel :: "covar \<Rightarrow> unit Kernel" where
  "constant_kernel r =
     \<lparr>kernel_state = (),
      kernel_forward = (\<lambda>st x1 x2 diag batch_dims params. (Inr r, st)),
      kernel_size = (\<lambda>st x1 x2. Inr (shape (delazify r)))\<rparr>"

section \<open>Facts about tensors\<close>

lemma concat_chunks: "length xs = k * n \<Longrightarrow> concat (chunks n k xs) = xs"
  by (induction k arbitrary: xs) auto

lemma length_chunks [simp]: "length (chunks n k xs) = k"
  by (induction k arbitrary: xs) auto

lemma chunks_length: "length xs = k * n \<Longrightarrow> c \<in> set (chunks n k xs) \<Longrightarrow> length c = n"
proof (induction k arbitrary: xs)
  case 0
  then show ?case by simp
next
  case (Suc k)
  from Suc.prems(2) consider "c = take n xs" | "c \<in> set (chunks n k (drop n xs))"
    by auto
  then show ?case
  proof cases
    case 1
    then show ?thesis using Suc.prems(1) by simp
  next
    case 2
    have "length (drop n xs) = k * n" using Suc.prems(1) by simp
    then show ?thesis using 2 by (rule Suc.IH)
  qed
qed

lemma chunks_one: "length xs = n \<Longrightarrow> chunks n (Suc 0) xs = [xs]"
  by simp


lemma expand_data_id: "length xs = prod_list s \<Longrightarrow> expand_data s s xs = xs"
proof (induction s arbitrary: xs)
  case Nil
  then show ?case by simp
next
  case (Cons a s)
  have "\<And>c. c \<in> set (chunks (prod_list s) a xs) \<Longrightarrow> length c = prod_list s"
    using Cons.prems by (auto elim: chunks_length [rotated])
  then have "map (expand_data s s) (chunks (prod_list s) a xs) = chunks (prod_list s) a xs"
    by (simp add: map_idI Cons.IH)
  then show ?case using Cons.prems by (simp add: concat_chunks)
qed

lemma expand_data_ones:
  "expand_data (replicate (length rest) (Suc 0)) rest [x] = replicate (prod_list rest) x"
proof (induction rest)
  case Nil
  then show ?case by simp
next
  case (Cons t ts)
  show ?case
  proof (cases "t = 1")
    case True
    then show ?thesis using Cons.IH by simp
  next
    case False
    then have "expand_data (replicate (length (t # ts)) (Suc 0)) (t # ts) [x]
      = concat (replicate t (replicate (prod_list ts) x))"
      using Cons.IH by simp
    also have "\<dots> = replicate (prod_list (t # ts)) x"
      by (induction t) (simp_all add: replicate_add)
    finally show ?thesis .
  qed
qed

lemma concat_map_concat_chunks:
  "concat (map (\<lambda>c. concat (map g c)) cs) = concat (map g (concat cs))"
  by (induction cs) simp_all

lemma expand_data_trailing:
  "length xs = prod_list ss \<Longrightarrow>
   expand_data (ss @ replicate (length rest) (Suc 0)) (ss @ rest) xs
     = concat (map (replicate (prod_list rest)) xs)"
proof (induction ss arbitrary: xs)
  case Nil
  then obtain x where "xs = [x]" by (cases xs) auto
  then show ?case using expand_data_ones [of rest x] by simp
next
  case (Cons s ss)
  let ?cs = "chunks (prod_list ss) s xs"
  have len: "\<And>c. c \<in> set ?cs \<Longrightarrow> length c = prod_list ss"
    using Cons.prems by (auto elim: chunks_length [rotated])
  have "map (expand_data (ss @ replicate (length rest) (Suc 0)) (ss @ rest)) ?cs
      = map (\<lambda>c. concat (map (replicate (prod_list rest)) c)) ?cs"
    by (intro map_cong refl Cons.IH len)
  then have "concat (map (expand_data (ss @ replicate (length rest) (Suc 0)) (ss @ rest)) ?cs)
      = concat (map (\<lambda>c. concat (map (replicate (prod_list rest)) c)) ?cs)"
    by (rule arg_cong)
  moreover have "expand_data ((s # ss) @ replicate (length rest) (Suc 0)) ((s # ss) @ rest) xs
      = concat (map (expand_data (ss @ replicate (length rest) (Suc 0)) (ss @ rest)) ?cs)"
    by simp
  ultimately have "expand_data ((s # ss) @ replicate (length rest) (Suc 0)) ((s # ss) @ rest) xs
      = concat (map (\<lambda>c. concat (map (replicate (prod_list rest)) c)) ?cs)"
    by (rule ssubst [rotated])
  also have "\<dots> = concat (map (replicate (prod_list rest)) (concat ?cs))"
    by (rule concat_map_concat_chunks)
  also have "concat ?cs = xs"
    using Cons.prems by (simp add: concat_chunks)
  finally show ?case .
qed


lemma length_concat_replicate:
  "length (concat (map (replicate m) xs)) = length xs * m"
  by (induction xs) simp_all

lemma nth_concat_replicate:
  "p < length xs * m \<Longrightarrow> concat (map (replicate m) xs) ! p = xs ! (p div m)"
proof (induction xs arbitrary: p)
  case Nil
  then show ?case by simp
next
  case (Cons x xs)
  show ?case
  proof (cases "p < m")
    case True
    then show ?thesis by (simp add: nth_append)
  next
    case False
    then have m: "0 < m" "m \<le> p" using Cons.prems by (cases "m = 0"; simp)+
    have "p - m < length xs * m" using Cons.prems False by simp
    then have "concat (map (replicate m) xs) ! (p - m) = xs ! ((p - m) div m)"
      by (rule Cons.IH)
    moreover have "p div m = Suc ((p - m) div m)"
      using m by (simp add: le_div_geq)
    ultimately show ?thesis using False by (simp add: nth_append)
  qed
qed

lemma nth_concat_replicate_whole:
  "j < d * length xs \<Longrightarrow> concat (replicate d xs) ! j = xs ! (j mod length xs)"
proof (induction d arbitrary: j)
  case 0
  then show ?case by simp
next
  case (Suc d)
  show ?case
  proof (cases "j < length xs")
    case True
    then show ?thesis by (simp add: nth_append)
  next
    case False
    then have "j - length xs < d * length xs" using Suc.prems by simp
    then have "concat (replicate d xs) ! (j - length xs) = xs ! ((j - length xs) mod length xs)"
      by (rule Suc.IH)
    moreover have "(j - length xs) mod length xs = j mod length xs"
      using False by (simp add: le_mod_geq)
    ultimately show ?thesis using False by (simp add: nth_append)
  qed
qed

lemma length_concat_replicate_whole:
  "length (concat (replicate d xs)) = d * length xs"
  by (induction d) simp_all

lemma broadcast_dims_ones: "broadcast_dims rest (replicate (length rest) (Suc 0)) = Inr rest"
  by (induction rest) simp_all

lemma broadcast_dims_trailing:
  "broadcast_dims (ss @ rest) (ss @ replicate (length rest) (Suc 0)) = Inr (ss @ rest)"
  by (induction ss) (simp_all add: broadcast_dims_ones)

lemma pad_left_same: "length s = n \<Longrightarrow> pad_left n s = s"
  by (simp add: pad_left_def)

lemma mul_trailing:
  assumes "wf_tensor a" and "shape a = ss @ rest"
    and "shape b = ss @ replicate (length rest) (Suc 0)" and "length (data b) = prod_list ss"
  shows "mul a b = Inr \<lparr>shape = ss @ rest,
           data = map2 (*) (data a) (concat (map (replicate (prod_list rest)) (data b)))\<rparr>"
proof -
  have bs: "broadcast_shapes (shape a) (shape b) = Inr (ss @ rest)"
    using assms(2,3) by (simp add: broadcast_shapes_def pad_left_same broadcast_dims_trailing)
  have ea: "expand_data (pad_left (length (ss @ rest)) (shape a)) (ss @ rest) (data a) = data a"
    using assms(1,2) by (simp add: pad_left_same expand_data_id wf_tensor_def)
  have eb: "expand_data (pad_left (length (ss @ rest)) (shape b)) (ss @ rest) (data b)
      = concat (map (replicate (prod_list rest)) (data b))"
    using assms(3,4) expand_data_trailing [of "data b" ss rest] by (simp add: pad_left_same)
  show ?thesis
    unfolding mul_def bs using ea eb by simp
qed

lemma repeat_data_ones:
  "length xs = prod_list ss \<Longrightarrow> repeat_data (replicate (length ss) (Suc 0)) ss xs = xs"
proof (induction ss arbitrary: xs)
  case Nil
  then show ?case by simp
next
  case (Cons s ss)
  have "\<And>c. c \<in> set (chunks (prod_list ss) s xs) \<Longrightarrow> length c = prod_list ss"
    using Cons.prems by (auto elim: chunks_length [rotated])
  then have "map (repeat_data (replicate (length ss) (Suc 0)) ss) (chunks (prod_list ss) s xs)
      = chunks (prod_list ss) s xs"
    by (simp add: map_idI Cons.IH)
  then show ?case using Cons.prems by (simp add: concat_chunks)
qed

lemma map2_mult_ones: "map2 (*) (replicate (length ss) (Suc 0)) ss = (ss :: nat list)"
  by (induction ss) simp_all

lemma repeat_leading:
  assumes "wf_tensor s"
  shows "repeat (unsqueeze0 s) (d # replicate (dim s) (Suc 0))
      = Inr \<lparr>shape = d # shape s, data = concat (replicate d (data s))\<rparr>"
proof -
  have len: "length (data s) = prod_list (shape s)"
    using assms by (simp add: wf_tensor_def)
  have "repeat_data (d # replicate (length (shape s)) (Suc 0)) (Suc 0 # shape s) (data s)
      = concat (replicate d (data s))"
    using len repeat_data_ones [of "data s" "shape s"] by simp
  then show ?thesis
    by (simp add: repeat_def unsqueeze0_def dim_def pad_left_def map2_mult_ones)
qed

section \<open>Facts about the constraint and the scales\<close>

lemma softplus_pos: "0 < softplus x"
  using ln_gt_zero [of "1 + exp x"] by (simp add: softplus_def)

lemma softplus_strict_mono: "strict_mono softplus"
  by (rule strict_monoI) (simp add: softplus_def add_pos_pos)

lemma softplus_inv_softplus: "0 < v \<Longrightarrow> softplus (inv_softplus v) = v"
  by (simp add: softplus_def inv_softplus_def)

lemma range_softplus: "range softplus = {0<..}"
proof
  show "range softplus \<subseteq> {0<..}"
    using softplus_pos by auto
  show "{0<..} \<subseteq> range softplus"
  proof
    fix v :: real
    assume "v \<in> {0<..}"
    then have "softplus (inv_softplus v) = v"
      by (simp add: softplus_inv_softplus)
    then show "v \<in> range softplus"
      by (metis rangeI)
  qed
qed

lemma Positive_positivity_constraint: "positivity_constraint Positive"
  by (simp add: positivity_constraint_def Positive_def softplus_strict_mono range_softplus
      softplus_inv_softplus)

lemma positivity_constraint_pos:
  "positivity_constraint c \<Longrightarrow> 0 < c_transform c x"
proof -
  assume "positivity_constraint c"
  then have "range (c_transform c) = {0<..}"
    by (simp add: positivity_constraint_def)
  moreover have "c_transform c x \<in> range (c_transform c)"
    by (rule rangeI)
  ultimately show ?thesis by simp
qed


lemma positivity_constraint_inj: "positivity_constraint c \<Longrightarrow> inj (c_transform c)"
  by (simp add: positivity_constraint_def strict_mono_imp_inj_on)



lemma expand_shape: "expand t sizes = Inr r \<Longrightarrow> shape r = sizes"
  by (auto simp: expand_def split: if_splits)


lemma prod_list_ones: "prod_list (replicate k (Suc 0)) = Suc 0"
  by (induction k) simp_all

lemma wf_transform: "wf_tensor (transform c t) = wf_tensor t"
  by (simp add: wf_tensor_def transform_def)

lemma wf_outputscale: "wf_tensor (raw_outputscale self) \<Longrightarrow> wf_tensor (outputscale self)"
  by (simp add: outputscale_def wf_transform)

lemma view_trailing:
  "wf_tensor t \<Longrightarrow> shape t \<noteq> [] \<or> k \<noteq> 0 \<Longrightarrow>
   view t (shape t @ replicate k (Suc 0)) = Inr \<lparr>shape = shape t @ replicate k (Suc 0), data = data t\<rparr>"
  by (auto simp: view_def numel_def prod_list_ones)

lemma forward_outputscales_eval:
  assumes "wf_tensor s"
  shows "forward_outputscales s x1 batch_dims
     = (if batch_dims = Some (0, 2)
        then (case size_last x1 of
                Inl e \<Rightarrow> Inl e
              | Inr d \<Rightarrow> Inr \<lparr>shape = d # shape s, data = concat (replicate d (data s))\<rparr>)
        else Inr s)"
  using repeat_leading [OF assms]
  by (simp add: forward_outputscales_def split: sum.split)

lemma forward_outputscales_wf:
  assumes "wf_tensor s" and "forward_outputscales s x1 batch_dims = Inr scales"
  shows "wf_tensor scales"
  using assms
  by (auto simp: forward_outputscales_eval wf_tensor_def length_concat_replicate_whole
      split: if_splits sum.splits)

lemma forward_outputscales_nth:
  assumes "wf_tensor s" and "forward_outputscales s x1 batch_dims = Inr scales"
    and "j < length (data scales)"
  shows "data scales ! j = data s ! (j mod numel s)"
proof (cases "batch_dims = Some (0, 2)")
  case True
  then obtain d where sc: "scales = \<lparr>shape = d # shape s, data = concat (replicate d (data s))\<rparr>"
    using assms(1,2) by (auto simp: forward_outputscales_eval split: sum.splits)
  have "j < d * length (data s)"
    using assms(3) by (simp add: sc length_concat_replicate_whole)
  then have "concat (replicate d (data s)) ! j = data s ! (j mod length (data s))"
    by (rule nth_concat_replicate_whole)
  then show ?thesis
    using assms(1) by (simp add: sc numel_def wf_tensor_def)
next
  case False
  then have "scales = s"
    using assms(2) by (simp add: forward_outputscales_def)
  then show ?thesis
    using assms(1,3) by (simp add: numel_def wf_tensor_def)
qed

lemma scale_output_trailing:
  assumes "wf_tensor (delazify orig)" and "wf_tensor scales"
    and "shape (delazify orig) = shape scales @ rest" and "shape (delazify orig) \<noteq> []"
  shows "scale_output orig scales diag
     = Inr ((if diag \<or> \<not> is_lazy orig then Dense else Lazy)
         \<lparr>shape = shape scales @ rest,
          data = map2 (*) (data (delazify orig))
                   (concat (map (replicate (prod_list rest)) (data scales)))\<rparr>)"
proof -
  let ?v = "\<lparr>shape = shape scales @ replicate (length rest) (Suc 0), data = data scales\<rparr>"
  have k: "covar_dim orig - dim scales = length rest"
    using assms(3) by (simp add: covar_dim_def dim_def)
  have v: "view scales (shape scales @ replicate (covar_dim orig - dim scales) 1) = Inr ?v"
    using view_trailing [OF assms(2), of "length rest"] assms(3,4) by (simp add: k)
  have "length (data ?v) = prod_list (shape scales)"
    using assms(2) by (simp add: wf_tensor_def)
  with assms(1,3) have m: "mul (delazify orig) ?v
      = Inr \<lparr>shape = shape scales @ rest,
             data = map2 (*) (data (delazify orig))
                      (concat (map (replicate (prod_list rest)) (data ?v)))\<rparr>"
    by (intro mul_trailing) simp_all
  show ?thesis
    unfolding scale_output_def v using m by (cases orig) simp_all
qed

lemma broadcast_dims_expandable:
  "length bs \<le> length as \<Longrightarrow>
   list_all2 (\<lambda>b a. b = a \<or> b = 1) bs (take (length bs) as) \<Longrightarrow>
   broadcast_dims as (bs @ replicate (length as - length bs) (Suc 0)) = Inr as"
proof (induction bs arbitrary: as)
  case Nil
  then show ?case by (simp add: broadcast_dims_ones)
next
  case (Cons b bs)
  then obtain a as' where as: "as = a # as'" by (cases as) auto
  have "broadcast_dims as' (bs @ replicate (length as' - length bs) (Suc 0)) = Inr as'"
    using Cons.prems by (intro Cons.IH) (simp_all add: as)
  moreover have "b = a \<or> b = 1" using Cons.prems(2) by (simp add: as)
  ultimately show ?case by (auto simp: as)
qed

lemma mul_shape: "mul a b = Inr r \<Longrightarrow> broadcast_shapes (shape a) (shape b) = Inr (shape r)"
  by (auto simp: mul_def split: sum.splits)

lemma scale_output_policy:
  assumes "scale_output orig scales diag = Inr res"
  shows "(diag \<longrightarrow> \<not> is_lazy res) \<and> (\<not> diag \<longrightarrow> is_lazy res = is_lazy orig)
       \<and> broadcast_shapes (shape (delazify orig))
            (shape scales @ replicate (covar_dim orig - dim scales) 1)
           = Inr (shape (delazify res))"
proof -
  obtain v where v: "view scales (shape scales @ replicate (covar_dim orig - dim scales) 1) = Inr v"
    using assms by (auto simp: scale_output_def split: sum.splits)
  then have sv: "shape v = shape scales @ replicate (covar_dim orig - dim scales) 1"
    by (auto simp: view_def split: if_splits)
  show ?thesis
  proof (cases diag)
    case True
    then obtain r where "mul (delazify orig) v = Inr r" "res = Dense r"
      using assms v by (auto simp: scale_output_def split: sum.splits)
    then show ?thesis using True mul_shape [of "delazify orig" v r] by (simp add: sv)
  next
    case False
    then have cm: "covar_mul orig v = Inr res"
      using assms v by (simp add: scale_output_def)
    then obtain r where "mul (delazify orig) v = Inr r" "delazify res = r" "is_lazy res = is_lazy orig"
      by (cases orig) (auto split: sum.splits)
    then show ?thesis using False mul_shape [of "delazify orig" v r] by (simp add: sv)
  qed
qed

lemma scale_output_expandable:
  assumes "wf_tensor scales" and "covar_dim orig \<noteq> 0" and "dim scales \<le> covar_dim orig"
    and "list_all2 (\<lambda>b a. b = a \<or> b = 1) (shape scales) (take (dim scales) (shape (delazify orig)))"
  shows "\<exists>res. scale_output orig scales diag = Inr res"
proof -
  let ?k = "covar_dim orig - dim scales"
  let ?v = "\<lparr>shape = shape scales @ replicate ?k (Suc 0), data = data scales\<rparr>"
  have v: "view scales (shape scales @ replicate ?k 1) = Inr ?v"
    using view_trailing [OF assms(1), of ?k] assms(2) by (auto simp: dim_def)
  have "broadcast_dims (shape (delazify orig))
      (shape scales @ replicate (length (shape (delazify orig)) - length (shape scales)) (Suc 0))
      = Inr (shape (delazify orig))"
    using assms(3,4) by (intro broadcast_dims_expandable) (simp_all add: covar_dim_def dim_def)
  then have "broadcast_shapes (shape (delazify orig)) (shape ?v) = Inr (shape (delazify orig))"
    using assms(3) by (simp add: broadcast_shapes_def pad_left_same covar_dim_def dim_def max_def)
  then obtain r where m: "mul (delazify orig) ?v = Inr r"
    by (simp add: mul_def)
  show ?thesis
    unfolding scale_output_def v using m by (cases orig) simp_all
qed

text \<open>Entries of expanded, multiplied and repeated tensors.\<close>

lemma valid_index_Cons:
  "valid_index (n # ns) idx \<longleftrightarrow> (\<exists>i is. idx = i # is \<and> i < n \<and> valid_index ns is)"
  by (cases idx) (simp_all add: valid_index_def)

lemma valid_index_Nil: "valid_index [] idx \<longleftrightarrow> idx = []"
  by (simp add: valid_index_def)

lemma valid_index_length: "valid_index ns is \<Longrightarrow> length is = length ns"
  by (simp add: valid_index_def list_all2_lengthD)

lemma expands_to_Cons:
  "expands_to (a # s) t \<longleftrightarrow> (\<exists>b t'. t = b # t' \<and> (a = b \<or> a = 1) \<and> expands_to s t')"
  by (cases t) (simp_all add: expands_to_def)

lemma expands_to_Nil: "expands_to [] t \<longleftrightarrow> t = []"
  by (simp add: expands_to_def)

lemma expands_to_length: "expands_to s t \<Longrightarrow> length s = length t"
  by (simp add: expands_to_def list_all2_lengthD)

lemma flat_index_less: "valid_index ns is \<Longrightarrow> flat_index ns is < prod_list ns"
proof (induction ns arbitrary: "is")
  case Nil
  then show ?case by (simp add: valid_index_Nil)
next
  case (Cons n ns)
  then obtain i js where idx: "is = i # js" and i: "i < n" and js: "valid_index ns js"
    by (auto simp: valid_index_Cons)
  have "flat_index ns js < prod_list ns" using js by (rule Cons.IH)
  then have "i * prod_list ns + flat_index ns js < Suc i * prod_list ns" by simp
  also have "\<dots> \<le> n * prod_list ns" using i by (intro mult_le_mono1) simp
  finally show ?case by (simp add: idx)
qed

lemma nth_concat_uniform:
  "\<forall>c \<in> set cs. length c = L \<Longrightarrow> i < length cs \<Longrightarrow> r < L \<Longrightarrow>
   concat cs ! (i * L + r) = cs ! i ! r"
proof (induction cs arbitrary: i)
  case Nil
  then show ?case by simp
next
  case (Cons c cs)
  show ?case
  proof (cases i)
    case 0
    then show ?thesis using Cons.prems by (simp add: nth_append)
  next
    case (Suc k)
    have "concat cs ! (k * L + r) = cs ! k ! r"
      using Cons.prems Suc by (intro Cons.IH) simp_all
    moreover have "length c = L" using Cons.prems by simp
    ultimately show ?thesis using Suc by (simp add: nth_append)
  qed
qed

lemma length_concat_uniform:
  "\<forall>c \<in> set cs. length c = L \<Longrightarrow> length (concat cs) = length cs * L"
  by (induction cs) simp_all

lemma nth_chunks: "i < k \<Longrightarrow> chunks n k xs ! i = take n (drop (i * n) xs)"
proof (induction k arbitrary: i xs)
  case 0
  then show ?case by simp
next
  case (Suc k)
  show ?case
  proof (cases i)
    case 0
    then show ?thesis by simp
  next
    case (Suc j)
    then have "chunks n k (drop n xs) ! j = take n (drop (j * n) (drop n xs))"
      using Suc.prems by (intro Suc.IH) simp
    then show ?thesis using Suc by (simp add: add.commute)
  qed
qed

lemma length_expand_data:
  "expands_to s t \<Longrightarrow> length xs = prod_list s \<Longrightarrow> length (expand_data s t xs) = prod_list t"
proof (induction s arbitrary: t xs)
  case Nil
  then show ?case by (simp add: expands_to_Nil)
next
  case (Cons a s)
  then obtain b t' where t: "t = b # t'" and ab: "a = b \<or> a = 1" and st: "expands_to s t'"
    by (auto simp: expands_to_Cons)
  show ?case
  proof (cases "a = b")
    case True
    have "\<forall>c \<in> set (chunks (prod_list s) a xs). length c = prod_list s"
      using Cons.prems(2) by (auto elim: chunks_length [rotated])
    then have "\<forall>c \<in> set (map (expand_data s t') (chunks (prod_list s) a xs)).
        length c = prod_list t'"
      using Cons.IH [OF st] by auto
    then have "length (concat (map (expand_data s t') (chunks (prod_list s) a xs)))
        = length (map (expand_data s t') (chunks (prod_list s) a xs)) * prod_list t'"
      by (rule length_concat_uniform)
    then show ?thesis using True by (simp add: t)
  next
    case False
    then have a: "a = 1" using ab by simp
    then have "length (expand_data s t' xs) = prod_list t'"
      using Cons.prems(2) by (intro Cons.IH [OF st]) simp
    then show ?thesis using False by (simp add: t length_concat_replicate_whole)
  qed
qed

lemma valid_clamp_index:
  "expands_to s t \<Longrightarrow> valid_index t idx \<Longrightarrow> valid_index s (clamp_index s idx)"
proof (induction s arbitrary: t idx)
  case Nil
  then show ?case by (simp add: valid_index_def)
next
  case (Cons a s)
  then obtain b t' where t: "t = b # t'" and ab: "a = b \<or> a = 1" and st: "expands_to s t'"
    by (auto simp: expands_to_Cons)
  obtain i js where idx: "idx = i # js" and i: "i < b" and js: "valid_index t' js"
    using Cons.prems(2) by (auto simp: t valid_index_Cons)
  have "valid_index s (clamp_index s js)" using st js by (rule Cons.IH)
  then show ?case using ab i by (auto simp: idx valid_index_Cons)
qed

lemma expand_data_nth:
  "expands_to s t \<Longrightarrow> length xs = prod_list s \<Longrightarrow> valid_index t idx \<Longrightarrow>
   expand_data s t xs ! flat_index t idx = xs ! flat_index s (clamp_index s idx)"
proof (induction s arbitrary: t xs idx)
  case Nil
  then show ?case by (simp add: expands_to_Nil valid_index_Nil)
next
  case (Cons a s)
  then obtain b t' where t: "t = b # t'" and ab: "a = b \<or> a = 1" and st: "expands_to s t'"
    by (auto simp: expands_to_Cons)
  obtain i js where idx: "idx = i # js" and i: "i < b" and js: "valid_index t' js"
    using Cons.prems(3) by (auto simp: t valid_index_Cons)
  let ?n = "prod_list s"
  let ?L = "prod_list t'"
  have r: "flat_index t' js < ?L" using js by (rule flat_index_less)
  have vs: "valid_index s (clamp_index s js)" using st js by (rule valid_clamp_index)
  then have q: "flat_index s (clamp_index s js) < ?n" by (rule flat_index_less)
  show ?case
  proof (cases "a = b")
    case True
    let ?cs = "chunks ?n a xs"
    have len_c: "\<forall>c \<in> set ?cs. length c = ?n"
      using Cons.prems(2) by (auto elim: chunks_length [rotated])
    then have len_e: "\<forall>c \<in> set (map (expand_data s t') ?cs). length c = ?L"
      using length_expand_data [OF st] by auto
    have ia: "i < a" using i True by simp
    have ci: "?cs ! i = take ?n (drop (i * ?n) xs)" using ia by (rule nth_chunks)
    have ci_len: "length (?cs ! i) = ?n" using len_c ia by simp
    have room: "i * ?n + ?n \<le> length xs"
    proof -
      have "Suc i * ?n \<le> a * ?n" using ia by (intro mult_le_mono1) simp
      then show ?thesis using Cons.prems(2) by (simp add: add.commute)
    qed
    have "expand_data (a # s) t xs ! flat_index t idx
        = concat (map (expand_data s t') ?cs) ! (i * ?L + flat_index t' js)"
      using True by (simp add: t idx)
    also have "\<dots> = map (expand_data s t') ?cs ! i ! flat_index t' js"
      using len_e _ r by (rule nth_concat_uniform) (simp add: ia)
    also have "\<dots> = expand_data s t' (?cs ! i) ! flat_index t' js"
      using ia by simp
    also have "\<dots> = (?cs ! i) ! flat_index s (clamp_index s js)"
      using st ci_len js by (rule Cons.IH)
    also have "\<dots> = xs ! (i * ?n + flat_index s (clamp_index s js))"
      using q room by (simp add: ci)
    also have "i * ?n + flat_index s (clamp_index s js)
        = flat_index (a # s) (clamp_index (a # s) idx)"
      using ia by (auto simp: idx)
    finally show ?thesis .
  next
    case False
    then have a: "a = 1" using ab by simp
    have len: "length xs = ?n" using Cons.prems(2) a by simp
    have le: "length (expand_data s t' xs) = ?L" using st len by (rule length_expand_data)
    have "expand_data (a # s) t xs ! flat_index t idx
        = concat (replicate b (expand_data s t' xs)) ! (i * ?L + flat_index t' js)"
      using False by (simp add: t idx)
    also have "\<dots> = replicate b (expand_data s t' xs) ! i ! flat_index t' js"
      using _ _ r by (rule nth_concat_uniform) (simp_all add: le i)
    also have "\<dots> = expand_data s t' xs ! flat_index t' js"
      using i by simp
    also have "\<dots> = xs ! flat_index s (clamp_index s js)"
      using st len js by (rule Cons.IH)
    also have "flat_index s (clamp_index s js) = flat_index (a # s) (clamp_index (a # s) idx)"
      using a by (simp add: idx)
    finally show ?thesis .
  qed
qed

lemma broadcast_dims_expands:
  "broadcast_dims a b = Inr rs \<Longrightarrow> expands_to a rs \<and> expands_to b rs"
proof (induction a b arbitrary: rs rule: broadcast_dims.induct)
  case 1
  then show ?case by (simp add: expands_to_def)
next
  case (2 a as b bs)
  then obtain rs' where rs': "broadcast_dims as bs = Inr rs'"
    by (auto split: sum.splits)
  then have ih: "expands_to as rs' \<and> expands_to bs rs'" by (rule 2)
  have "rs = (if a = b then a # rs' else if a = 1 then b # rs' else a # rs') \<and>
      (a = b \<or> a = 1 \<or> b = 1)"
    using "2.prems" rs' by (auto split: if_splits)
  then show ?case using ih by (auto simp: expands_to_def)
qed simp_all

lemma prod_list_pad_left: "prod_list (pad_left n s) = prod_list s"
  by (simp add: pad_left_def prod_list_ones)

lemma length_pad_left: "length s \<le> n \<Longrightarrow> length (pad_left n s) = n"
  by (simp add: pad_left_def)

lemma flat_index_leading_ones:
  "length idx = k + length sh \<Longrightarrow>
   flat_index (replicate k (Suc 0) @ sh) (clamp_index (replicate k (Suc 0) @ sh) idx)
     = flat_index sh (clamp_index sh (drop k idx))"
proof (induction k arbitrary: idx)
  case 0
  then show ?case by simp
next
  case (Suc k)
  then obtain i js where "idx = i # js" by (cases idx) auto
  then show ?case using Suc by simp
qed

lemma flat_index_pad_left:
  "length sh \<le> length idx \<Longrightarrow>
   flat_index (pad_left (length idx) sh) (clamp_index (pad_left (length idx) sh) idx)
     = flat_index sh (broadcast_index sh idx)"
  using flat_index_leading_ones [of idx "length idx - length sh" sh]
  by (simp add: pad_left_def broadcast_index_def)

lemma broadcast_shapes_expands:
  assumes "broadcast_shapes a b = Inr rs"
  shows "length rs = max (length a) (length b)"
    and "expands_to (pad_left (length rs) a) rs" and "expands_to (pad_left (length rs) b) rs"
proof -
  let ?n = "max (length a) (length b)"
  have bd: "broadcast_dims (pad_left ?n a) (pad_left ?n b) = Inr rs"
    using assms by (simp add: broadcast_shapes_def Let_def)
  then have e: "expands_to (pad_left ?n a) rs \<and> expands_to (pad_left ?n b) rs"
    by (rule broadcast_dims_expands)
  then have "length (pad_left ?n a) = length rs" by (simp add: expands_to_length)
  then show len: "length rs = ?n" by (simp add: length_pad_left)
  show "expands_to (pad_left (length rs) a) rs" "expands_to (pad_left (length rs) b) rs"
    using e by (simp_all add: len)
qed

lemma mul_entry:
  assumes wa: "wf_tensor a" and wb: "wf_tensor b" and m: "mul a b = Inr r"
    and v: "valid_index (shape r) idx"
  shows "entry r idx
     = entry a (broadcast_index (shape a) idx) * entry b (broadcast_index (shape b) idx)"
proof -
  let ?rs = "shape r"
  let ?A = "expand_data (pad_left (length ?rs) (shape a)) ?rs (data a)"
  let ?B = "expand_data (pad_left (length ?rs) (shape b)) ?rs (data b)"
  let ?f = "flat_index ?rs idx"
  have bs: "broadcast_shapes (shape a) (shape b) = Inr ?rs"
    using m by (rule mul_shape)
  have req: "\<lparr>shape = ?rs, data = map2 (*) ?A ?B\<rparr> = r"
    using m bs by (simp add: mul_def)
  have dr: "data r = map2 (*) ?A ?B"
    using arg_cong [OF req, of data] by simp
  note ex = broadcast_shapes_expands [OF bs]
  have li: "length idx = length ?rs" using v by (rule valid_index_length)
  have la: "length (shape a) \<le> length idx" and lb: "length (shape b) \<le> length idx"
    using ex(1) by (simp_all add: li)
  have lenA: "length ?A = prod_list ?rs"
    using ex(2) wa by (intro length_expand_data) (simp_all add: prod_list_pad_left wf_tensor_def)
  have lenB: "length ?B = prod_list ?rs"
    using ex(3) wb by (intro length_expand_data) (simp_all add: prod_list_pad_left wf_tensor_def)
  have f: "?f < prod_list ?rs" using v by (rule flat_index_less)
  have "?A ! ?f = data a ! flat_index (pad_left (length ?rs) (shape a))
      (clamp_index (pad_left (length ?rs) (shape a)) idx)"
    using ex(2) _ v by (rule expand_data_nth) (use wa in \<open>simp add: prod_list_pad_left wf_tensor_def\<close>)
  then have A: "?A ! ?f = entry a (broadcast_index (shape a) idx)"
    using flat_index_pad_left [OF la] by (simp add: li entry_def)
  have "?B ! ?f = data b ! flat_index (pad_left (length ?rs) (shape b))
      (clamp_index (pad_left (length ?rs) (shape b)) idx)"
    using ex(3) _ v by (rule expand_data_nth) (use wb in \<open>simp add: prod_list_pad_left wf_tensor_def\<close>)
  then have B: "?B ! ?f = entry b (broadcast_index (shape b) idx)"
    using flat_index_pad_left [OF lb] by (simp add: li entry_def)
  have "entry r idx = ?A ! ?f * ?B ! ?f"
    using f lenA lenB by (simp add: entry_def dr)
  then show ?thesis by (simp add: A B)
qed

lemma clamp_index_trailing_ones:
  "length idx = length sh + k \<Longrightarrow>
   flat_index (sh @ replicate k (Suc 0)) (clamp_index (sh @ replicate k (Suc 0)) idx)
     = flat_index sh (clamp_index sh (take (length sh) idx))"
proof (induction sh arbitrary: idx)
  case Nil
  have "flat_index (replicate k (Suc 0)) (clamp_index (replicate k (Suc 0)) js) = 0"
    if "length js = k" for js
    using that by (induction k arbitrary: js) (auto simp: length_Suc_conv)
  then show ?case using Nil by simp
next
  case (Cons n sh)
  then obtain i js where "idx = i # js" by (cases idx) auto
  then show ?case using Cons by (simp add: prod_list_ones)
qed

lemma clamp_index_valid_id: "valid_index sh idx \<Longrightarrow> clamp_index sh idx = idx"
proof (induction sh arbitrary: idx)
  case Nil
  then show ?case by (simp add: valid_index_Nil)
next
  case (Cons n sh)
  then show ?case by (auto simp: valid_index_Cons)
qed

lemma scale_output_eq:
  assumes "wf_tensor scales"
  shows "scale_output orig scales diag
     = (if shape scales @ replicate (covar_dim orig - dim scales) (Suc 0) = [] then Inl TypeError
        else case mul (delazify orig)
                 \<lparr>shape = shape scales @ replicate (covar_dim orig - dim scales) (Suc 0),
                  data = data scales\<rparr> of
               Inl e \<Rightarrow> Inl e
             | Inr r \<Rightarrow> Inr ((if diag \<or> \<not> is_lazy orig then Dense else Lazy) r))"
  using assms
  by (cases orig)
    (simp_all add: scale_output_def view_def numel_def wf_tensor_def prod_list_ones
      split: sum.split)

lemma forward_eq:
  assumes "Kernel_forward (base_kernel self) x1 x2 diag batch_dims params = (Inr orig_output, base')"
  shows "fst (forward self x1 x2 batch_dims diag params)
     = (case forward_outputscales (outputscale self) x1 batch_dims of
          Inl e \<Rightarrow> Inl e
        | Inr scales \<Rightarrow> scale_output orig_output scales diag)"
  using assms by (simp add: forward_def split: sum.split)

lemma valid_clamp_index_take:
  "valid_index (a @ b) (clamp_index (a @ b) idx) \<Longrightarrow>
   valid_index a (clamp_index a (take (length a) idx))"
proof (induction a arbitrary: idx)
  case Nil
  then show ?case by (simp add: valid_index_def)
next
  case (Cons n a)
  show ?case
  proof (cases idx)
    case Nil
    then show ?thesis using Cons.prems by (simp add: valid_index_def)
  next
    case (Cons i js)
    then show ?thesis using Cons.prems Cons.IH [of js] by (auto simp: valid_index_Cons)
  qed
qed

lemma entry_repeated:
  assumes "wf_tensor s" and "valid_index (d # shape s) (clamp_index (d # shape s) (i # js))"
  shows "entry \<lparr>shape = d # shape s, data = concat (replicate d (data s))\<rparr>
           (clamp_index (d # shape s) (i # js))
     = entry s (clamp_index (shape s) js)"
proof -
  let ?c = "if d = 1 then 0 else i"
  let ?r = "flat_index (shape s) (clamp_index (shape s) js)"
  have c: "?c < d" and v: "valid_index (shape s) (clamp_index (shape s) js)"
    using assms(2) by (simp_all add: valid_index_Cons)
  have len: "length (data s) = prod_list (shape s)"
    using assms(1) by (simp add: wf_tensor_def)
  have r: "?r < length (data s)"
    using flat_index_less [OF v] by (simp add: len)
  have "concat (replicate d (data s)) ! (?c * length (data s) + ?r)
      = replicate d (data s) ! ?c ! ?r"
    using _ _ r by (rule nth_concat_uniform) (use c in simp_all)
  then have "concat (replicate d (data s)) ! (?c * length (data s) + ?r) = data s ! ?r"
    using c by simp
  then show ?thesis by (simp add: entry_def len)
qed

text \<open>
  The case in which the axes of the scales are the leading axes of the base result, in
  row-major places: the entry at place \<open>p\<close> belongs to the batch \<open>p div m\<close>, where \<open>m\<close> is
  the number of entries of one batch.
\<close>

lemma forward_leading_axes:
  assumes wf_raw: "wf_tensor (raw_outputscale self)"
    and base: "Kernel_forward (base_kernel self) x1 x2 diag batch_dims params
                 = (Inr orig_output, base')"
    and wf_orig: "wf_tensor (delazify orig_output)"
    and axes: "shape (delazify orig_output) \<noteq> []"
    and scales: "forward_outputscales (outputscale self) x1 batch_dims = Inr scales"
    and lead: "shape (delazify orig_output) = shape scales @ rest"
  shows "\<exists>res. fst (forward self x1 x2 batch_dims diag params) = Inr res
          \<and> shape (delazify res) = shape (delazify orig_output)
          \<and> length (data (delazify res)) = length (data (delazify orig_output))
          \<and> (\<forall>p < length (data (delazify orig_output)).
                data (delazify res) ! p
                  = data (outputscale self) ! ((p div prod_list rest) mod numel (outputscale self))
                    * data (delazify orig_output) ! p)
          \<and> (\<forall>b. batch_dims \<noteq> Some (0, 2) \<and> shape (raw_outputscale self) = [b] \<longrightarrow>
                (\<forall>i < b.
                   take (prod_list rest) (drop (i * prod_list rest) (data (delazify res)))
                     = map ((*) (data (outputscale self) ! i))
                         (take (prod_list rest)
                            (drop (i * prod_list rest) (data (delazify orig_output))))))
          \<and> (\<forall>b d. batch_dims = Some (0, 2) \<and> shape (raw_outputscale self) = [b]
                  \<and> size_last x1 = Inr d \<longrightarrow>
                (\<forall>j < d. \<forall>i < b.
                   take (prod_list rest)
                      (drop ((j * b + i) * prod_list rest) (data (delazify res)))
                     = map ((*) (data (outputscale self) ! i))
                         (take (prod_list rest)
                            (drop ((j * b + i) * prod_list rest)
                               (data (delazify orig_output))))))"
proof -
  let ?s = "outputscale self"
  let ?o = "delazify orig_output"
  let ?m = "prod_list rest"
  let ?R = "\<lparr>shape = shape scales @ rest,
             data = map2 (*) (data ?o) (concat (map (replicate ?m) (data scales)))\<rparr>"
  let ?res = "(if diag \<or> \<not> is_lazy orig_output then Dense else Lazy) ?R"
  have wf_s: "wf_tensor ?s" using wf_raw by (rule wf_outputscale)
  have wf_sc: "wf_tensor scales" using wf_s scales by (rule forward_outputscales_wf)
  have so: "scale_output orig_output scales diag = Inr ?res"
    using wf_orig wf_sc lead axes by (rule scale_output_trailing)
  have fw: "fst (forward self x1 x2 batch_dims diag params) = Inr ?res"
    by (simp add: forward_def scales base so)
  have dres: "delazify ?res = ?R" by simp
  have len_o: "length (data ?o) = length (data scales) * ?m"
    using wf_orig wf_sc lead by (simp add: wf_tensor_def)
  have len_R: "length (data ?R) = length (data ?o)"
    by (simp add: len_o length_concat_replicate)
  have nth_R: "data ?R ! p = data ?s ! ((p div ?m) mod numel ?s) * data ?o ! p"
    if p: "p < length (data ?o)" for p
  proof -
    have pm: "p < length (data scales) * ?m" using p by (simp add: len_o)
    then have j: "p div ?m < length (data scales)"
      by (simp add: less_mult_imp_div_less)
    have "data ?R ! p = data ?o ! p * concat (map (replicate ?m) (data scales)) ! p"
      using p pm by (simp add: length_concat_replicate)
    also have "concat (map (replicate ?m) (data scales)) ! p = data scales ! (p div ?m)"
      using pm by (rule nth_concat_replicate)
    also have "data scales ! (p div ?m) = data ?s ! ((p div ?m) mod numel ?s)"
      using wf_s scales j by (rule forward_outputscales_nth)
    finally show ?thesis by (simp add: mult.commute)
  qed
  have slice: "take ?m (drop (k * ?m) (data ?R))
      = map ((*) (data ?s ! (k mod numel ?s))) (take ?m (drop (k * ?m) (data ?o)))"
    if k: "k < length (data scales)" for k
  proof -
    have room: "k * ?m + ?m \<le> length (data ?o)"
    proof -
      have "Suc k \<le> length (data scales)" using k by simp
      then have "Suc k * ?m \<le> length (data scales) * ?m" by (rule mult_le_mono1)
      then show ?thesis by (simp add: add.commute len_o)
    qed
    show ?thesis
    proof (rule nth_equalityI)
      show "length (take ?m (drop (k * ?m) (data ?R)))
          = length (map ((*) (data ?s ! (k mod numel ?s))) (take ?m (drop (k * ?m) (data ?o))))"
        by (simp only: length_take length_drop length_map len_R)
    next
      fix q
      assume "q < length (take ?m (drop (k * ?m) (data ?R)))"
      then have q: "q < ?m" by simp
      then have p: "k * ?m + q < length (data ?o)" using room by simp
      have d: "(k * ?m + q) div ?m = k" using q by simp
      have le_R: "k * ?m \<le> length (data ?R)" and le_o: "k * ?m \<le> length (data ?o)"
        using p by (simp_all only: len_R)
      have "take ?m (drop (k * ?m) (data ?R)) ! q = drop (k * ?m) (data ?R) ! q"
        using q by simp
      also have "\<dots> = data ?R ! (k * ?m + q)"
        using le_R by (rule nth_drop)
      also have "\<dots> = data ?s ! (k mod numel ?s) * data ?o ! (k * ?m + q)"
        using nth_R [OF p] by (simp only: d)
      also have "data ?o ! (k * ?m + q) = drop (k * ?m) (data ?o) ! q"
        using le_o by (simp only: nth_drop)
      also have "\<dots> = take ?m (drop (k * ?m) (data ?o)) ! q"
        using q by simp
      finally have lhs: "take ?m (drop (k * ?m) (data ?R)) ! q
          = data ?s ! (k mod numel ?s) * take ?m (drop (k * ?m) (data ?o)) ! q" .
      have "length (take ?m (drop (k * ?m) (data ?o))) = ?m"
        using room by simp
      then have "map ((*) (data ?s ! (k mod numel ?s))) (take ?m (drop (k * ?m) (data ?o))) ! q
          = data ?s ! (k mod numel ?s) * take ?m (drop (k * ?m) (data ?o)) ! q"
        using q by (intro nth_map) simp
      with lhs show "take ?m (drop (k * ?m) (data ?R)) ! q
          = map ((*) (data ?s ! (k mod numel ?s))) (take ?m (drop (k * ?m) (data ?o))) ! q"
        by simp
    qed
  qed
  have numel_s: "numel ?s = b" "length (data ?s) = b" if "shape (raw_outputscale self) = [b]" for b
    using that wf_s by (simp_all add: numel_def wf_tensor_def outputscale_def transform_def)
  have slices: "take ?m (drop (i * ?m) (data ?R))
      = map ((*) (data ?s ! i)) (take ?m (drop (i * ?m) (data ?o)))"
    if nb: "batch_dims \<noteq> Some (0, 2)" and sh: "shape (raw_outputscale self) = [b]" and i: "i < b"
    for b i
  proof -
    have "scales = ?s" using scales nb by (simp add: forward_outputscales_def)
    then have "i < length (data scales)" using i numel_s(2) [OF sh] by simp
    then show ?thesis using slice [of i] i by (simp add: numel_s(1) [OF sh])
  qed
  have slices02: "take ?m (drop ((j * b + i) * ?m) (data ?R))
      = map ((*) (data ?s ! i)) (take ?m (drop ((j * b + i) * ?m) (data ?o)))"
    if bd: "batch_dims = Some (0, 2)" and sh: "shape (raw_outputscale self) = [b]"
      and d: "size_last x1 = Inr d" and j: "j < d" and i: "i < b"
    for b d j i
  proof -
    have "scales = \<lparr>shape = d # shape ?s, data = concat (replicate d (data ?s))\<rparr>"
      using scales bd d by (simp add: forward_outputscales_eval [OF wf_s])
    then have ls: "length (data scales) = d * b"
      by (simp add: length_concat_replicate_whole numel_s(2) [OF sh])
    have "j * b + i < j * b + b" using i by simp
    also have "\<dots> = Suc j * b" by simp
    also have "\<dots> \<le> d * b" using j by (intro mult_le_mono1) simp
    finally have "j * b + i < length (data scales)" by (simp add: ls)
    then show ?thesis using slice [of "j * b + i"] i by (simp add: numel_s(1) [OF sh])
  qed
  show ?thesis
  proof (intro exI conjI allI impI)
    show "fst (forward self x1 x2 batch_dims diag params) = Inr ?res" by (rule fw)
    show "shape (delazify ?res) = shape ?o" by (simp add: lead)
    show "length (data (delazify ?res)) = length (data ?o)"
      unfolding dres by (rule len_R)
    show "data (delazify ?res) ! p = data ?s ! ((p div ?m) mod numel ?s) * data ?o ! p"
      if "p < length (data ?o)" for p
      unfolding dres using that by (rule nth_R)
    show "take ?m (drop (i * ?m) (data (delazify ?res)))
        = map ((*) (data ?s ! i)) (take ?m (drop (i * ?m) (data ?o)))"
      if "batch_dims \<noteq> Some (0, 2) \<and> shape (raw_outputscale self) = [b]" and "i < b" for b i
      unfolding dres using that slices by blast
    show "take ?m (drop ((j * b + i) * ?m) (data (delazify ?res)))
        = map ((*) (data ?s ! i)) (take ?m (drop ((j * b + i) * ?m) (data ?o)))"
      if "batch_dims = Some (0, 2) \<and> shape (raw_outputscale self) = [b] \<and> size_last x1 = Inr d"
        and "j < d" and "i < b" for b d j i
      unfolding dres using that slices02 by blast
  qed
qed

lemmas eval_defs = ScaleKernel_init_def constant_kernel_def zeros_def scalar_tensor_def
  outputscale_def transform_def Positive_def forward_def forward_outputscales_def
  Kernel_forward_def scale_output_def view_def covar_dim_def dim_def numel_def mul_def
  broadcast_shapes_def pad_left_def size_last_def unsqueeze0_def repeat_def wf_tensor_def
  eval_nat_numeral

section \<open>The claims\<close>

text \<open>
  Claim C1. Whatever the inputs \<open>x1\<close>, \<open>x2\<close>, \<^verbatim>\<open>batch_dims\<close>, \<^verbatim>\<open>diag\<close> and the
  passed-through parameters are, for a dense and for a lazy base result: every result
  that \<^verbatim>\<open>forward\<close> returns has, at every index, the entry of the base result at that index
  multiplied by the entry of the constrained outputscale at the leading part of the index
  (the part after its first component under \<^verbatim>\<open>batch_dims == (0, 2)\<close>, where the scales get
  a new first axis of the size of the last axis of \<open>x1\<close>); indices are taken as broadcasting
  takes them, 0 along an axis of size 1. The shape of the result is the broadcast of the
  shape of the base result and the shape \<open>sshape\<close> of the scales, which is given here from
  the inputs; \<^verbatim>\<open>forward\<close> returns a result whenever these shapes broadcast (and \<open>x1\<close> has a
  last axis where it is asked for), and only then.

  In particular, with \<^verbatim>\<open>batch_shape = [b]\<close> (the claim has \<open>b = 3\<close>) and a base result of
  batch size \<open>b\<close>, batch slice \<open>i\<close> of the result is \<open>scale[i]\<close> times batch slice \<open>i\<close> of
  the base result; under \<^verbatim>\<open>batch_dims == (0, 2)\<close>, where the base result has the new axis
  of size \<open>d\<close> in front of the batch axis, this holds for batch slice \<open>i\<close> at every index
  \<open>j < d\<close> of the new axis.
\<close>

theorem forward_scales_entrywise:
  assumes wf_raw: "wf_tensor (raw_outputscale self)"
    and base: "Kernel_forward (base_kernel self) x1 x2 diag batch_dims params
                 = (Inr orig_output, base')"
    and wf_orig: "wf_tensor (delazify orig_output)"
    and lead: "lead = (if batch_dims = Some (0, 2) then [last (shape x1)] else [])"
    and sshape: "sshape = lead @ shape (outputscale self)
                   @ replicate (covar_dim orig_output - (length lead + dim (outputscale self))) 1"
  shows "(\<forall>res. fst (forward self x1 x2 batch_dims diag params) = Inr res \<longrightarrow>
            (batch_dims = Some (0, 2) \<longrightarrow> shape x1 \<noteq> []) \<and> sshape \<noteq> []
            \<and> broadcast_shapes (shape (delazify orig_output)) sshape = Inr (shape (delazify res))
            \<and> (\<forall>idx. valid_index (shape (delazify res)) idx \<longrightarrow>
                  entry (delazify res) idx
                    = entry (outputscale self)
                        (clamp_index (shape (outputscale self))
                           (take (dim (outputscale self)) (drop (length lead) idx)))
                      * entry (delazify orig_output)
                          (broadcast_index (shape (delazify orig_output)) idx)))
       \<and> ((batch_dims = Some (0, 2) \<longrightarrow> shape x1 \<noteq> []) \<and> sshape \<noteq> []
            \<and> (\<exists>rs. broadcast_shapes (shape (delazify orig_output)) sshape = Inr rs)
          \<longrightarrow> (\<exists>res. fst (forward self x1 x2 batch_dims diag params) = Inr res))
       \<and> (\<forall>b rest. batch_dims \<noteq> Some (0, 2) \<and> shape (raw_outputscale self) = [b]
                 \<and> shape (delazify orig_output) = b # rest \<longrightarrow>
            (\<exists>res. fst (forward self x1 x2 batch_dims diag params) = Inr res
               \<and> shape (delazify res) = b # rest
               \<and> (\<forall>i < b.
                     take (prod_list rest) (drop (i * prod_list rest) (data (delazify res)))
                       = map ((*) (data (outputscale self) ! i))
                           (take (prod_list rest)
                              (drop (i * prod_list rest) (data (delazify orig_output)))))))
       \<and> (\<forall>b d rest. batch_dims = Some (0, 2) \<and> size_last x1 = Inr d
                 \<and> shape (raw_outputscale self) = [b]
                 \<and> shape (delazify orig_output) = d # b # rest \<longrightarrow>
            (\<exists>res. fst (forward self x1 x2 batch_dims diag params) = Inr res
               \<and> shape (delazify res) = d # b # rest
               \<and> (\<forall>j < d. \<forall>i < b.
                     take (prod_list rest)
                        (drop ((j * b + i) * prod_list rest) (data (delazify res)))
                       = map ((*) (data (outputscale self) ! i))
                           (take (prod_list rest)
                              (drop ((j * b + i) * prod_list rest)
                                 (data (delazify orig_output)))))))"
proof -
  let ?s = "outputscale self"
  let ?o = "delazify orig_output"
  let ?d = "last (shape x1)"
  let ?rep = "\<lparr>shape = ?d # shape ?s, data = concat (replicate ?d (data ?s))\<rparr>"
  let ?fw = "fst (forward self x1 x2 batch_dims diag params)"
  have wf_s: "wf_tensor ?s" using wf_raw by (rule wf_outputscale)
  have fo: "forward_outputscales ?s x1 batch_dims
      = (if batch_dims = Some (0, 2)
         then (if shape x1 = [] then Inl IndexError else Inr ?rep)
         else Inr ?s)"
    by (simp add: forward_outputscales_eval [OF wf_s] size_last_def)
  have fw: "?fw = (case forward_outputscales ?s x1 batch_dims of
      Inl e \<Rightarrow> Inl e | Inr scales \<Rightarrow> scale_output orig_output scales diag)"
    using base by (rule forward_eq)

  have general: "(batch_dims = Some (0, 2) \<longrightarrow> shape x1 \<noteq> []) \<and> sshape \<noteq> []
      \<and> broadcast_shapes (shape ?o) sshape = Inr (shape (delazify res))
      \<and> (\<forall>idx. valid_index (shape (delazify res)) idx \<longrightarrow>
            entry (delazify res) idx
              = entry ?s (clamp_index (shape ?s) (take (dim ?s) (drop (length lead) idx)))
                * entry ?o (broadcast_index (shape ?o) idx))"
    if ret: "?fw = Inr res" for res
  proof -
    obtain scales where sc: "forward_outputscales ?s x1 batch_dims = Inr scales"
      and so: "scale_output orig_output scales diag = Inr res"
      using ret fw by (auto split: sum.splits)
    have mode: "batch_dims = Some (0, 2) \<longrightarrow> shape x1 \<noteq> []"
      using sc fo by (auto split: if_splits)
    have scales: "scales = (if batch_dims = Some (0, 2) then ?rep else ?s)"
      using sc fo by (auto split: if_splits)
    have sh_sc: "shape scales = lead @ shape ?s"
      by (simp add: scales lead)
    have wf_sc: "wf_tensor scales" using wf_s sc by (rule forward_outputscales_wf)
    let ?k = "covar_dim orig_output - dim scales"
    have ssh: "sshape = shape scales @ replicate ?k (Suc 0)"
      by (simp add: sshape sh_sc dim_def)
    let ?v = "\<lparr>shape = sshape, data = data scales\<rparr>"
    have ne: "sshape \<noteq> []"
      using so scale_output_eq [OF wf_sc, of orig_output diag] by (auto simp: ssh split: if_splits)
    obtain r where m: "mul ?o ?v = Inr r" and dres: "delazify res = r"
      using so scale_output_eq [OF wf_sc, of orig_output diag] ne
      by (auto simp: ssh split: if_splits sum.splits)
    have wf_v: "wf_tensor ?v"
      using wf_sc by (simp add: wf_tensor_def ssh prod_list_ones)
    have bs: "broadcast_shapes (shape ?o) sshape = Inr (shape r)"
      using mul_shape [OF m] by simp
    have len_ss: "length sshape = max (length (shape ?o)) (length sshape)"
      by (simp add: ssh covar_dim_def dim_def max_def)
    have len_r: "length (shape r) = length sshape"
      using broadcast_shapes_expands(1) [OF bs] len_ss by simp
    have ex: "expands_to sshape (shape r)"
      using broadcast_shapes_expands(3) [OF bs] by (simp add: len_r pad_left_same)
    have ent: "entry r idx
        = entry ?s (clamp_index (shape ?s) (take (dim ?s) (drop (length lead) idx)))
          * entry ?o (broadcast_index (shape ?o) idx)"
      if v: "valid_index (shape r) idx" for idx
    proof -
      have li: "length idx = length (shape scales) + ?k"
        using valid_index_length [OF v] len_r by (simp add: ssh)
      have "entry r idx = entry ?o (broadcast_index (shape ?o) idx)
          * entry ?v (broadcast_index (shape ?v) idx)"
        using wf_orig wf_v m v by (rule mul_entry)
      moreover have bi: "broadcast_index (shape ?v) idx = clamp_index sshape idx"
        using li by (simp add: broadcast_index_def ssh)
      moreover have "entry ?v (clamp_index sshape idx)
          = entry scales (clamp_index (shape scales) (take (length (shape scales)) idx))"
        using clamp_index_trailing_ones [OF li] by (simp add: entry_def ssh)
      moreover have "entry scales (clamp_index (shape scales) (take (length (shape scales)) idx))
          = entry ?s (clamp_index (shape ?s) (take (dim ?s) (drop (length lead) idx)))"
      proof (cases "batch_dims = Some (0, 2)")
        case False
        then show ?thesis by (simp add: scales lead dim_def)
      next
        case True
        have vs: "valid_index (shape scales @ replicate ?k (Suc 0))
            (clamp_index (shape scales @ replicate ?k (Suc 0)) idx)"
          using valid_clamp_index [OF ex v] by (simp add: ssh)
        have v1: "valid_index (shape scales)
            (clamp_index (shape scales) (take (length (shape scales)) idx))"
          using vs by (rule valid_clamp_index_take)
        obtain i js where idx: "idx = i # js"
          using li True by (cases idx) (simp_all add: scales)
        have "valid_index (?d # shape ?s) (clamp_index (?d # shape ?s) (i # take (dim ?s) js))"
          using v1 True by (simp add: scales idx dim_def)
        then have "entry ?rep (clamp_index (?d # shape ?s) (i # take (dim ?s) js))
            = entry ?s (clamp_index (shape ?s) (take (dim ?s) js))"
          by (rule entry_repeated [OF wf_s])
        then show ?thesis using True by (simp add: scales lead idx dim_def)
      qed
      ultimately show ?thesis by (simp add: mult.commute)
    qed
    show ?thesis using mode ne bs ent by (simp add: dres)
  qed

  have returns: "\<exists>res. ?fw = Inr res"
    if mode: "batch_dims = Some (0, 2) \<longrightarrow> shape x1 \<noteq> []" and ne: "sshape \<noteq> []"
      and bs: "broadcast_shapes (shape ?o) sshape = Inr rs" for rs
  proof -
    let ?scales = "if batch_dims = Some (0, 2) then ?rep else ?s"
    have sc: "forward_outputscales ?s x1 batch_dims = Inr ?scales"
      using mode by (simp add: fo)
    have wf_sc: "wf_tensor ?scales" using wf_s sc by (rule forward_outputscales_wf)
    have ssh: "sshape = shape ?scales @ replicate (covar_dim orig_output - dim ?scales) (Suc 0)"
      by (simp add: sshape lead dim_def)
    have "\<exists>r. mul ?o \<lparr>shape = sshape, data = data ?scales\<rparr> = Inr r"
      using bs by (simp add: mul_def)
    then have "\<exists>res. scale_output orig_output ?scales diag = Inr res"
      using ne unfolding scale_output_eq [OF wf_sc] ssh [symmetric] by auto
    then show ?thesis by (simp add: fw sc)
  qed

  have batch: "\<exists>res. ?fw = Inr res \<and> shape (delazify res) = b # rest
      \<and> (\<forall>i < b. take (prod_list rest) (drop (i * prod_list rest) (data (delazify res)))
            = map ((*) (data ?s ! i))
                (take (prod_list rest) (drop (i * prod_list rest) (data ?o))))"
    if h: "batch_dims \<noteq> Some (0, 2) \<and> shape (raw_outputscale self) = [b]
        \<and> shape ?o = b # rest" for b rest
  proof -
    have sc: "forward_outputscales ?s x1 batch_dims = Inr ?s"
      using h by (simp add: fo)
    have l: "shape ?o = shape ?s @ rest"
      using h by (simp add: outputscale_def transform_def)
    have a: "shape ?o \<noteq> []" using h by simp
    from forward_leading_axes [OF wf_raw base wf_orig a sc l]
    obtain res where "?fw = Inr res" and "shape (delazify res) = shape ?o"
      and "\<forall>b. batch_dims \<noteq> Some (0, 2) \<and> shape (raw_outputscale self) = [b] \<longrightarrow>
             (\<forall>i < b. take (prod_list rest) (drop (i * prod_list rest) (data (delazify res)))
                = map ((*) (data ?s ! i))
                    (take (prod_list rest) (drop (i * prod_list rest) (data ?o))))"
      by blast
    then show ?thesis using h by auto
  qed

  have batch02: "\<exists>res. ?fw = Inr res \<and> shape (delazify res) = d # b # rest
      \<and> (\<forall>j < d. \<forall>i < b.
            take (prod_list rest) (drop ((j * b + i) * prod_list rest) (data (delazify res)))
              = map ((*) (data ?s ! i))
                  (take (prod_list rest) (drop ((j * b + i) * prod_list rest) (data ?o))))"
    if h: "batch_dims = Some (0, 2) \<and> size_last x1 = Inr d
        \<and> shape (raw_outputscale self) = [b] \<and> shape ?o = d # b # rest" for b d rest
  proof -
    let ?sc = "\<lparr>shape = d # shape ?s, data = concat (replicate d (data ?s))\<rparr>"
    have sc: "forward_outputscales ?s x1 batch_dims = Inr ?sc"
      using h by (simp add: forward_outputscales_eval [OF wf_s])
    have l: "shape ?o = shape ?sc @ rest"
      using h by (simp add: outputscale_def transform_def)
    have a: "shape ?o \<noteq> []" using h by simp
    from forward_leading_axes [OF wf_raw base wf_orig a sc l]
    obtain res where "?fw = Inr res" and "shape (delazify res) = shape ?o"
      and "\<forall>b d. batch_dims = Some (0, 2) \<and> shape (raw_outputscale self) = [b]
               \<and> size_last x1 = Inr d \<longrightarrow>
             (\<forall>j < d. \<forall>i < b.
                take (prod_list rest) (drop ((j * b + i) * prod_list rest) (data (delazify res)))
                  = map ((*) (data ?s ! i))
                      (take (prod_list rest) (drop ((j * b + i) * prod_list rest) (data ?o))))"
      by blast
    then show ?thesis using h by auto
  qed

  show ?thesis
    using general returns batch batch02 by (intro conjI allI impI) blast+
qed

theorem forward_scales_entrywise_witness:
  "wf_tensor (raw_outputscale
      ((ScaleKernel_init (constant_kernel (Dense \<lparr>shape = [2, 2, 1, 1], data = [1, 2, 3, 4]\<rparr>))
          None None [2])\<lparr>raw_outputscale := \<lparr>shape = [2], data = [0, 1]\<rparr>\<rparr>))
   \<and> wf_tensor (delazify (Dense \<lparr>shape = [2, 2, 1, 1], data = [1, 2, 3, 4]\<rparr>))
   \<and> size_last \<lparr>shape = [2, 1, 2], data = [0, 1, 2, 3]\<rparr> = Inr 2
   \<and> fst (forward
      ((ScaleKernel_init (constant_kernel (Dense \<lparr>shape = [2, 2, 1, 1], data = [1, 2, 3, 4]\<rparr>))
          None None [2])\<lparr>raw_outputscale := \<lparr>shape = [2], data = [0, 1]\<rparr>\<rparr>)
      \<lparr>shape = [2, 1, 2], data = [0, 1, 2, 3]\<rparr>
      \<lparr>shape = [2, 1, 2], data = [0, 1, 2, 3]\<rparr> (Some (0, 2)) False [])
     = Inr (Dense \<lparr>shape = [2, 2, 1, 1],
                   data = [1 * softplus 0, 2 * softplus 1, 3 * softplus 0, 4 * softplus 1]\<rparr>)
   \<and> entry \<lparr>shape = [2, 2, 1, 1],
             data = [1 * softplus 0, 2 * softplus 1, 3 * softplus 0, 4 * softplus 1]\<rparr>
        [1, 1, 0, 0]
     = entry \<lparr>shape = [2], data = [softplus 0, softplus 1]\<rparr> [1]
       * entry \<lparr>shape = [2, 2, 1, 1], data = [1, 2, 3, 4]\<rparr> [1, 1, 0, 0]
   \<and> fst (forward
      (ScaleKernel_init (constant_kernel (Lazy \<lparr>shape = [2, 1, 1], data = [5, 7]\<rparr>))
          None None [1])
      \<lparr>shape = [2, 1, 1], data = [0, 1]\<rparr> \<lparr>shape = [2, 1, 1], data = [0, 1]\<rparr> None False [])
     = Inr (Lazy \<lparr>shape = [2, 1, 1], data = [5 * softplus 0, 7 * softplus 0]\<rparr>)
   \<and> entry \<lparr>shape = [2, 1, 1], data = [5 * softplus 0, 7 * softplus 0]\<rparr> [1, 0, 0]
     = entry \<lparr>shape = [1], data = [softplus 0]\<rparr> [0]
       * entry \<lparr>shape = [2, 1, 1], data = [5, 7]\<rparr> [1, 0, 0]"
proof -
  let ?O = "Dense \<lparr>shape = [2, 2, 1, 1], data = [1, 2, 3, 4]\<rparr>"
  let ?K = "(ScaleKernel_init (constant_kernel ?O) None None [2])
              \<lparr>raw_outputscale := \<lparr>shape = [2], data = [0, 1]\<rparr>\<rparr>"
  let ?x = "\<lparr>shape = [2, 1, 2], data = [0, 1, 2, 3]\<rparr>"
  let ?R = "\<lparr>shape = [2, 2, 1, 1],
             data = [1 * softplus 0, 2 * softplus 1, 3 * softplus 0, 4 * softplus 1]\<rparr>"
  let ?O1 = "Lazy \<lparr>shape = [2, 1, 1], data = [5, 7]\<rparr>"
  let ?K1 = "ScaleKernel_init (constant_kernel ?O1) None None [1]"
  let ?x1 = "\<lparr>shape = [2, 1, 1], data = [0, 1]\<rparr>"
  let ?R1 = "\<lparr>shape = [2, 1, 1], data = [5 * softplus 0, 7 * softplus 0]\<rparr>"
  have h1: "wf_tensor (raw_outputscale ?K)"
    by (simp add: eval_defs)
  have h2: "Kernel_forward (base_kernel ?K) ?x ?x False (Some (0, 2)) []
      = (Inr ?O, constant_kernel ?O)"
    by (simp add: eval_defs)
  have h3: "wf_tensor (delazify ?O)"
    by (simp add: eval_defs)
  have h4: "size_last ?x = Inr 2"
    by (simp add: size_last_def)
  have ret: "fst (forward ?K ?x ?x (Some (0, 2)) False []) = Inr (Dense ?R)"
    by (simp add: eval_defs)
  have "valid_index (shape (delazify (Dense ?R))) [1, 1, 0, 0]"
    by (simp add: valid_index_def)
  with forward_scales_entrywise [OF h1 h2 h3 refl refl] ret
  have "entry (delazify (Dense ?R)) [1, 1, 0, 0]
      = entry (outputscale ?K)
          (clamp_index (shape (outputscale ?K))
             (take (dim (outputscale ?K)) (drop (length [last (shape ?x)]) [1, 1, 0, 0])))
        * entry (delazify ?O) (broadcast_index (shape (delazify ?O)) [1, 1, 0, 0])"
    by simp
  then have e: "entry ?R [1, 1, 0, 0]
      = entry \<lparr>shape = [2], data = [softplus 0, softplus 1]\<rparr> [1]
        * entry \<lparr>shape = [2, 2, 1, 1], data = [1, 2, 3, 4]\<rparr> [1, 1, 0, 0]"
    by (simp add: eval_defs broadcast_index_def)
  have g1: "wf_tensor (raw_outputscale ?K1)"
    by (simp add: eval_defs)
  have g2: "Kernel_forward (base_kernel ?K1) ?x1 ?x1 False None [] = (Inr ?O1, constant_kernel ?O1)"
    by (simp add: eval_defs)
  have g3: "wf_tensor (delazify ?O1)"
    by (simp add: eval_defs)
  have ret1: "fst (forward ?K1 ?x1 ?x1 None False []) = Inr (Lazy ?R1)"
    by (simp add: eval_defs)
  have "valid_index (shape (delazify (Lazy ?R1))) [1, 0, 0]"
    by (simp add: valid_index_def)
  with forward_scales_entrywise [OF g1 g2 g3 refl refl] ret1
  have "entry (delazify (Lazy ?R1)) [1, 0, 0]
      = entry (outputscale ?K1)
          (clamp_index (shape (outputscale ?K1))
             (take (dim (outputscale ?K1)) (drop (length ([] :: nat list)) [1, 0, 0])))
        * entry (delazify ?O1) (broadcast_index (shape (delazify ?O1)) [1, 0, 0])"
    by simp
  then have e1: "entry ?R1 [1, 0, 0]
      = entry \<lparr>shape = [1], data = [softplus 0]\<rparr> [0]
        * entry \<lparr>shape = [2, 1, 1], data = [5, 7]\<rparr> [1, 0, 0]"
    by (simp add: eval_defs broadcast_index_def)
  show ?thesis using h1 h3 h4 ret e ret1 e1 by simp
qed



text \<open>
  Claim C3. For a kernel whose constraint honours the positivity contract, as the default
  \<open>Positive\<close> does, every entry of \<^verbatim>\<open>outputscale\<close> is strictly positive, whatever the value
  of the raw parameter is, however large or small.
\<close>

theorem outputscale_positive:
  "positivity_constraint (raw_outputscale_constraint self)
     \<Longrightarrow> list_all (\<lambda>v. 0 < v) (data (outputscale self))"
  by (simp add: outputscale_def transform_def list_all_iff positivity_constraint_pos)

theorem outputscale_positive_witness:
  "positivity_constraint (raw_outputscale_constraint
      ((ScaleKernel_init (constant_kernel (Dense (scalar_tensor 2))) None None [2])
         \<lparr>raw_outputscale := \<lparr>shape = [2], data = [- 1000, 1000]\<rparr>\<rparr>))
   \<and> data (outputscale
      ((ScaleKernel_init (constant_kernel (Dense (scalar_tensor 2))) None None [2])
         \<lparr>raw_outputscale := \<lparr>shape = [2], data = [- 1000, 1000]\<rparr>\<rparr>))
       = [softplus (- 1000), softplus 1000]
   \<and> 0 < softplus (- 1000) \<and> 0 < softplus 1000"
  using outputscale_positive [of "(ScaleKernel_init (constant_kernel (Dense (scalar_tensor 2)))
      None None [2])\<lparr>raw_outputscale := \<lparr>shape = [2], data = [- 1000, 1000]\<rparr>\<rparr>"]
    Positive_positivity_constraint
  by (simp add: ScaleKernel_init_def outputscale_def transform_def Positive_def)

text \<open>
  Claim C4. \<^verbatim>\<open>size\<close> returns exactly what the \<^verbatim>\<open>size\<close> of the base kernel returns for the
  same inputs.
\<close>

theorem size_kernel_delegates:
  "size_kernel self x1 x2 = Kernel_size (base_kernel self) x1 x2"
  by (simp add: size_kernel_def)

theorem size_kernel_delegates_witness:
  "size_kernel (ScaleKernel_init (constant_kernel (Dense \<lparr>shape = [2, 2], data = [1, 0, 0, 1]\<rparr>))
      None None []) \<lparr>shape = [2, 1], data = [0, 1]\<rparr> \<lparr>shape = [2, 1], data = [0, 1]\<rparr>
     = Inr [2, 2]"
  using size_kernel_delegates [of "ScaleKernel_init
      (constant_kernel (Dense \<lparr>shape = [2, 2], data = [1, 0, 0, 1]\<rparr>)) None None []"
      "\<lparr>shape = [2, 1], data = [0, 1]\<rparr>" "\<lparr>shape = [2, 1], data = [0, 1]\<rparr>"]
  by (simp add: ScaleKernel_init_def Kernel_size_def constant_kernel_def)

text \<open>
  Claim C5. Setting the outputscale to a value with an entry that is not positive, such
  as \<open>-1.0\<close>, raises InvalidScaleError and leaves the object, and so the raw parameter,
  as it was.
\<close>

theorem set_outputscale_invalid:
  "\<not> list_all (\<lambda>v. 0 < v) (data (as_tensor value))
     \<Longrightarrow> set_outputscale self value = (Inl InvalidScaleError, self)"
  by (simp add: set_outputscale_def inverse_transform_def)

theorem set_outputscale_invalid_witness:
  "\<not> list_all (\<lambda>v. 0 < v) (data (as_tensor (Number (- 1))))
   \<and> set_outputscale (ScaleKernel_init (constant_kernel (Dense (scalar_tensor 2))) None None [])
        (Number (- 1))
     = (Inl InvalidScaleError,
        ScaleKernel_init (constant_kernel (Dense (scalar_tensor 2))) None None [])
   \<and> raw_outputscale (snd (set_outputscale
        (ScaleKernel_init (constant_kernel (Dense (scalar_tensor 2))) None None [])
        (Number (- 1))))
     = \<lparr>shape = [], data = [0]\<rparr>"
  using set_outputscale_invalid [of "Number (- 1)"
      "ScaleKernel_init (constant_kernel (Dense (scalar_tensor 2))) None None []"]
  by (simp add: scalar_tensor_def ScaleKernel_init_def)

text \<open>
  Claim C6. The constructor creates the raw parameter filled with zeros, with the shape
  \<^verbatim>\<open>batch_shape\<close> when that is not empty, and as the 0-dimensional tensor 0 when it is.
\<close>

theorem init_raw_outputscale:
  "raw_outputscale (ScaleKernel_init base pr c bs)
     = (if bs = [] then \<lparr>shape = [], data = [0]\<rparr>
        else \<lparr>shape = bs, data = replicate (prod_list bs) 0\<rparr>)"
  by (simp add: ScaleKernel_init_def zeros_def scalar_tensor_def)

theorem init_raw_outputscale_witness:
  "raw_outputscale (ScaleKernel_init (constant_kernel (Dense (scalar_tensor 2))) None None [3])
     = \<lparr>shape = [3], data = [0, 0, 0]\<rparr>
   \<and> raw_outputscale (ScaleKernel_init (constant_kernel (Dense (scalar_tensor 2))) None None [])
     = \<lparr>shape = [], data = [0]\<rparr>"
  using init_raw_outputscale [of "constant_kernel (Dense (scalar_tensor 2))" None None "[3]"]
    init_raw_outputscale [of "constant_kernel (Dense (scalar_tensor 2))" None None "[]"]
  by (simp add: eval_nat_numeral)



text \<open>
  Claim C8, as stated, fails in its last part: with \<^verbatim>\<open>batch_shape = [3]\<close> and a base result
  of shape \<open>[1, 1, 1]\<close> the scaled result has the shape \<open>[3, 1, 1]\<close>, since the
  multiplication broadcasts the base result along the batch axis of the scales.
\<close>

theorem forward_shape_counterexample:
  "fst (Kernel_forward
      (base_kernel (ScaleKernel_init (constant_kernel (Dense \<lparr>shape = [1, 1, 1], data = [2]\<rparr>))
         None None [3]))
      \<lparr>shape = [1, 1, 1], data = [0]\<rparr> \<lparr>shape = [1, 1, 1], data = [0]\<rparr> False None [])
     = Inr (Dense \<lparr>shape = [1, 1, 1], data = [2]\<rparr>)
   \<and> fst (forward
      (ScaleKernel_init (constant_kernel (Dense \<lparr>shape = [1, 1, 1], data = [2]\<rparr>)) None None [3])
      \<lparr>shape = [1, 1, 1], data = [0]\<rparr> \<lparr>shape = [1, 1, 1], data = [0]\<rparr> None False [])
     = Inr (Dense \<lparr>shape = [3, 1, 1], data = [2 * softplus 0, 2 * softplus 0, 2 * softplus 0]\<rparr>)
   \<and> shape (delazify (Dense \<lparr>shape = [3, 1, 1],
                               data = [2 * softplus 0, 2 * softplus 0, 2 * softplus 0]\<rparr>))
     \<noteq> shape (delazify (Dense \<lparr>shape = [1, 1, 1], data = [2]\<rparr>))"
  by (simp add: eval_defs)

text \<open>
  Claim C8, amended. When \<^verbatim>\<open>forward\<close> returns a result, it is dense if \<^verbatim>\<open>diag\<close> is set, and
  lazy exactly when the base result is lazy if \<^verbatim>\<open>diag\<close> is not set; its shape is the
  broadcast of the shape of the base result and the shape of the scales (with the trailing
  axes of size 1). When every axis of the scales is of size 1 or of the size of the axis of
  the base result at the same place, \<^verbatim>\<open>forward\<close> returns a result, and its shape is the
  shape of the base result.
\<close>

theorem forward_representation_policy:
  assumes wf_raw: "wf_tensor (raw_outputscale self)"
    and base: "Kernel_forward (base_kernel self) x1 x2 diag batch_dims params
                 = (Inr orig_output, base')"
    and scales: "forward_outputscales (outputscale self) x1 batch_dims = Inr scales"
  shows "(\<forall>res. fst (forward self x1 x2 batch_dims diag params) = Inr res \<longrightarrow>
            (diag \<longrightarrow> \<not> is_lazy res) \<and> (\<not> diag \<longrightarrow> is_lazy res = is_lazy orig_output)
            \<and> broadcast_shapes (shape (delazify orig_output))
                 (shape scales @ replicate (covar_dim orig_output - dim scales) 1)
                = Inr (shape (delazify res)))
       \<and> (covar_dim orig_output \<noteq> 0 \<and> dim scales \<le> covar_dim orig_output
            \<and> list_all2 (\<lambda>b a. b = a \<or> b = 1) (shape scales)
                 (take (dim scales) (shape (delazify orig_output)))
          \<longrightarrow> (\<exists>res. fst (forward self x1 x2 batch_dims diag params) = Inr res
                 \<and> shape (delazify res) = shape (delazify orig_output)))"
proof -
  have fw: "fst (forward self x1 x2 batch_dims diag params) = scale_output orig_output scales diag"
    by (simp add: forward_def scales base)
  have wf_sc: "wf_tensor scales"
    using wf_outputscale [OF wf_raw] scales by (rule forward_outputscales_wf)
  have general: "(diag \<longrightarrow> \<not> is_lazy res) \<and> (\<not> diag \<longrightarrow> is_lazy res = is_lazy orig_output)
      \<and> broadcast_shapes (shape (delazify orig_output))
           (shape scales @ replicate (covar_dim orig_output - dim scales) 1)
          = Inr (shape (delazify res))"
    if "fst (forward self x1 x2 batch_dims diag params) = Inr res" for res
    using that scale_output_policy [of orig_output scales diag res] by (simp add: fw)
  have same: "\<exists>res. fst (forward self x1 x2 batch_dims diag params) = Inr res
      \<and> shape (delazify res) = shape (delazify orig_output)"
    if ax: "covar_dim orig_output \<noteq> 0" and le: "dim scales \<le> covar_dim orig_output"
      and ex: "list_all2 (\<lambda>b a. b = a \<or> b = 1) (shape scales)
                 (take (dim scales) (shape (delazify orig_output)))"
  proof -
    obtain res where res: "scale_output orig_output scales diag = Inr res"
      using scale_output_expandable [OF wf_sc ax le ex] by blast
    have "broadcast_dims (shape (delazify orig_output))
        (shape scales @ replicate (length (shape (delazify orig_output)) - length (shape scales)) (Suc 0))
        = Inr (shape (delazify orig_output))"
      using le ex by (intro broadcast_dims_expandable) (simp_all add: covar_dim_def dim_def)
    then have "broadcast_shapes (shape (delazify orig_output))
        (shape scales @ replicate (covar_dim orig_output - dim scales) 1)
        = Inr (shape (delazify orig_output))"
      using le by (simp add: broadcast_shapes_def pad_left_same covar_dim_def dim_def max_def)
    moreover have "broadcast_shapes (shape (delazify orig_output))
        (shape scales @ replicate (covar_dim orig_output - dim scales) 1)
        = Inr (shape (delazify res))"
      using scale_output_policy [OF res] by simp
    ultimately have "shape (delazify res) = shape (delazify orig_output)" by simp
    then show ?thesis using res by (simp add: fw)
  qed
  show ?thesis using general same by blast
qed

theorem forward_representation_policy_witness:
  "wf_tensor (raw_outputscale
      (ScaleKernel_init (constant_kernel (Lazy \<lparr>shape = [3, 1, 1], data = [1, 2, 3]\<rparr>))
         None None [3]))
   \<and> dim (outputscale
      (ScaleKernel_init (constant_kernel (Lazy \<lparr>shape = [3, 1, 1], data = [1, 2, 3]\<rparr>))
         None None [3]))
      \<le> covar_dim (Lazy \<lparr>shape = [3, 1, 1], data = [1, 2, 3]\<rparr>)
   \<and> fst (forward
      (ScaleKernel_init (constant_kernel (Lazy \<lparr>shape = [3, 1, 1], data = [1, 2, 3]\<rparr>))
         None None [3])
      \<lparr>shape = [3, 1, 1], data = [0, 1, 2]\<rparr> \<lparr>shape = [3, 1, 1], data = [0, 1, 2]\<rparr>
      None False [])
     = Inr (Lazy \<lparr>shape = [3, 1, 1],
                  data = [1 * softplus 0, 2 * softplus 0, 3 * softplus 0]\<rparr>)
   \<and> is_lazy (Lazy \<lparr>shape = [3, 1, 1],
                       data = [1 * softplus 0, 2 * softplus 0, 3 * softplus 0]\<rparr>)
   \<and> fst (forward
      (ScaleKernel_init (constant_kernel (Lazy \<lparr>shape = [3, 1, 1], data = [1, 2, 3]\<rparr>))
         None None [3])
      \<lparr>shape = [3, 1, 1], data = [0, 1, 2]\<rparr> \<lparr>shape = [3, 1, 1], data = [0, 1, 2]\<rparr>
      None True [])
     = Inr (Dense \<lparr>shape = [3, 1, 1],
                   data = [1 * softplus 0, 2 * softplus 0, 3 * softplus 0]\<rparr>)"
proof -
  let ?O = "Lazy \<lparr>shape = [3, 1, 1], data = [1, 2, 3]\<rparr>"
  let ?K = "ScaleKernel_init (constant_kernel ?O) None None [3]"
  let ?x = "\<lparr>shape = [3, 1, 1], data = [0, 1, 2]\<rparr>"
  have h1: "wf_tensor (raw_outputscale ?K)"
    by (simp add: eval_defs)
  have h2: "Kernel_forward (base_kernel ?K) ?x ?x diag None [] = (Inr ?O, constant_kernel ?O)"
    for diag
    by (simp add: eval_defs)
  have h3: "forward_outputscales (outputscale ?K) ?x None = Inr (outputscale ?K)"
    by (simp add: forward_outputscales_def)
  have h4: "covar_dim ?O \<noteq> 0 \<and> dim (outputscale ?K) \<le> covar_dim ?O"
    by (simp add: eval_defs)
  have h5: "list_all2 (\<lambda>b a. b = a \<or> b = 1) (shape (outputscale ?K))
      (take (dim (outputscale ?K)) (shape (delazify ?O)))"
    by (simp add: eval_defs)
  have lazy: "\<exists>res. fst (forward ?K ?x ?x None False []) = Inr res
      \<and> shape (delazify res) = shape (delazify ?O)"
    using forward_representation_policy [OF h1 h2 h3, of False] h4 h5 by blast
  have dense: "\<exists>res. fst (forward ?K ?x ?x None True []) = Inr res
      \<and> shape (delazify res) = shape (delazify ?O)"
    using forward_representation_policy [OF h1 h2 h3, of True] h4 h5 by blast
  have "fst (forward ?K ?x ?x None False [])
      = Inr (Lazy \<lparr>shape = [3, 1, 1], data = [1 * softplus 0, 2 * softplus 0, 3 * softplus 0]\<rparr>)"
    using lazy by (simp add: eval_defs)
  moreover have "fst (forward ?K ?x ?x None True [])
      = Inr (Dense \<lparr>shape = [3, 1, 1], data = [1 * softplus 0, 2 * softplus 0, 3 * softplus 0]\<rparr>)"
    using dense by (simp add: eval_defs)
  ultimately show ?thesis using h1 h4 by simp
qed

text \<open>
  Claim C9. \<^verbatim>\<open>forward\<close> leaves the stored state of the decorator as it was: the raw
  parameter, the constraint, the batch shape and the prior of the object after the call
  are those before it, whether the call returns or raises and whatever the base kernel
  does to its own state.
\<close>

theorem forward_frame:
  "raw_outputscale (snd (forward self x1 x2 batch_dims diag params)) = raw_outputscale self
   \<and> raw_outputscale_constraint (snd (forward self x1 x2 batch_dims diag params))
       = raw_outputscale_constraint self
   \<and> batch_shape (snd (forward self x1 x2 batch_dims diag params)) = batch_shape self
   \<and> outputscale_prior (snd (forward self x1 x2 batch_dims diag params))
       = outputscale_prior self"
  by (simp add: forward_def split: sum.split prod.split)

theorem forward_frame_witness:
  "raw_outputscale (snd (forward
      (ScaleKernel_init (constant_kernel (Dense \<lparr>shape = [2, 2], data = [1, 0, 0, 1]\<rparr>))
         None None [])
      \<lparr>shape = [2, 1], data = [0, 1]\<rparr> \<lparr>shape = [2, 1], data = [0, 1]\<rparr> None False []))
     = \<lparr>shape = [], data = [0]\<rparr>"
  using forward_frame [of "ScaleKernel_init
      (constant_kernel (Dense \<lparr>shape = [2, 2], data = [1, 0, 0, 1]\<rparr>)) None None []"
      "\<lparr>shape = [2, 1], data = [0, 1]\<rparr>" "\<lparr>shape = [2, 1], data = [0, 1]\<rparr>" None False "[]"]
  by (simp add: ScaleKernel_init_def scalar_tensor_def)

text \<open>
  Claim C10. The constrained outputscale is not cached: after the raw parameter has been
  given a value \<open>r\<close>, by whatever means, \<^verbatim>\<open>outputscale\<close> returns the transform of \<open>r\<close>, and
  the next \<^verbatim>\<open>forward\<close> multiplies the transform of \<open>r\<close> into the result of the base
  kernel. Under a constraint that honours the positivity contract every change of the raw
  parameter changes what \<^verbatim>\<open>outputscale\<close> returns.
\<close>

theorem outputscale_not_cached:
  "outputscale (self\<lparr>raw_outputscale := r\<rparr>) = transform (raw_outputscale_constraint self) r
   \<and> fst (forward (self\<lparr>raw_outputscale := r\<rparr>) x1 x2 batch_dims diag params)
       = (case forward_outputscales (transform (raw_outputscale_constraint self) r) x1 batch_dims of
            Inl e \<Rightarrow> Inl e
          | Inr outputscales \<Rightarrow>
              (case fst (Kernel_forward (base_kernel self) x1 x2 diag batch_dims params) of
                 Inl e \<Rightarrow> Inl e
               | Inr orig_output \<Rightarrow> scale_output orig_output outputscales diag))
   \<and> (positivity_constraint (raw_outputscale_constraint self) \<and> r \<noteq> raw_outputscale self
        \<longrightarrow> outputscale (self\<lparr>raw_outputscale := r\<rparr>) \<noteq> outputscale self)"
proof (intro conjI impI)
  show "outputscale (self\<lparr>raw_outputscale := r\<rparr>) = transform (raw_outputscale_constraint self) r"
    by (simp add: outputscale_def)
  show "fst (forward (self\<lparr>raw_outputscale := r\<rparr>) x1 x2 batch_dims diag params)
       = (case forward_outputscales (transform (raw_outputscale_constraint self) r) x1 batch_dims of
            Inl e \<Rightarrow> Inl e
          | Inr outputscales \<Rightarrow>
              (case fst (Kernel_forward (base_kernel self) x1 x2 diag batch_dims params) of
                 Inl e \<Rightarrow> Inl e
               | Inr orig_output \<Rightarrow> scale_output orig_output outputscales diag))"
    by (simp add: forward_def outputscale_def split: sum.split prod.split)
  show "outputscale (self\<lparr>raw_outputscale := r\<rparr>) \<noteq> outputscale self"
    if "positivity_constraint (raw_outputscale_constraint self) \<and> r \<noteq> raw_outputscale self"
  proof
    assume eq: "outputscale (self\<lparr>raw_outputscale := r\<rparr>) = outputscale self"
    have inj: "inj (c_transform (raw_outputscale_constraint self))"
      using that by (simp add: positivity_constraint_inj)
    from eq have "shape r = shape (raw_outputscale self)"
      and "map (c_transform (raw_outputscale_constraint self)) (data r)
         = map (c_transform (raw_outputscale_constraint self)) (data (raw_outputscale self))"
      by (simp_all add: outputscale_def transform_def)
    then have "shape r = shape (raw_outputscale self)" and "data r = data (raw_outputscale self)"
      using inj by (simp_all add: inj_map_eq_map)
    then have "r = raw_outputscale self" by simp
    then show False using that by simp
  qed
qed

theorem outputscale_not_cached_witness:
  "positivity_constraint (raw_outputscale_constraint
      (ScaleKernel_init (constant_kernel (Dense \<lparr>shape = [1, 1], data = [2]\<rparr>)) None None []))
   \<and> scalar_tensor 1 \<noteq> raw_outputscale
      (ScaleKernel_init (constant_kernel (Dense \<lparr>shape = [1, 1], data = [2]\<rparr>)) None None [])
   \<and> outputscale
      ((ScaleKernel_init (constant_kernel (Dense \<lparr>shape = [1, 1], data = [2]\<rparr>)) None None [])
         \<lparr>raw_outputscale := scalar_tensor 1\<rparr>)
     = \<lparr>shape = [], data = [softplus 1]\<rparr>
   \<and> outputscale
      ((ScaleKernel_init (constant_kernel (Dense \<lparr>shape = [1, 1], data = [2]\<rparr>)) None None [])
         \<lparr>raw_outputscale := scalar_tensor 1\<rparr>)
     \<noteq> outputscale
      (ScaleKernel_init (constant_kernel (Dense \<lparr>shape = [1, 1], data = [2]\<rparr>)) None None [])
   \<and> fst (forward
      ((ScaleKernel_init (constant_kernel (Dense \<lparr>shape = [1, 1], data = [2]\<rparr>)) None None [])
         \<lparr>raw_outputscale := scalar_tensor 1\<rparr>)
      \<lparr>shape = [1, 1], data = [0]\<rparr> \<lparr>shape = [1, 1], data = [0]\<rparr> None False [])
     = Inr (Dense \<lparr>shape = [1, 1], data = [2 * softplus 1]\<rparr>)"
proof -
  let ?K = "ScaleKernel_init (constant_kernel (Dense \<lparr>shape = [1, 1], data = [2]\<rparr>)) None None []"
  let ?x = "\<lparr>shape = [1, 1], data = [0]\<rparr>"
  have pc: "positivity_constraint (raw_outputscale_constraint ?K)"
    using Positive_positivity_constraint by (simp add: ScaleKernel_init_def)
  have ne: "scalar_tensor 1 \<noteq> raw_outputscale ?K"
    by (simp add: ScaleKernel_init_def scalar_tensor_def)
  note nc = outputscale_not_cached [where self = ?K and r = "scalar_tensor 1" and ?x1.0 = ?x
      and ?x2.0 = ?x and batch_dims = None and diag = False and params = "[]"]
  have a: "outputscale (?K\<lparr>raw_outputscale := scalar_tensor 1\<rparr>) = \<lparr>shape = [], data = [softplus 1]\<rparr>"
    using nc by (simp add: eval_defs)
  have b: "outputscale (?K\<lparr>raw_outputscale := scalar_tensor 1\<rparr>) \<noteq> outputscale ?K"
    using nc pc ne by blast
  have c: "fst (forward (?K\<lparr>raw_outputscale := scalar_tensor 1\<rparr>) ?x ?x None False [])
      = Inr (Dense \<lparr>shape = [1, 1], data = [2 * softplus 1]\<rparr>)"
    using nc by (simp add: eval_defs)
  show ?thesis using pc ne a b c by simp
qed

end
